theory Spec2Isabelle
  imports Complex_Main "HOL-Library.Signed_Division"
begin

section \<open>The hybrid MPI/OpenMP Laplace solver of hybrid_cpu.c\<close>

text \<open>
  The program is the function \<^verbatim>\<open>main\<close> of \<^verbatim>\<open>src/C/hybrid_cpu.c\<close>. Every MPI process
  runs it on its own pair of grids; inside the loop two OpenMP threads share the work.

  \<^item> A \<^verbatim>\<open>double\<close> is modelled as a real number: rounding, infinities and NaN are left out.
  \<^item> The macros \<^verbatim>\<open>ROWS\<close>, \<^verbatim>\<open>COLUMNS\<close>, \<^verbatim>\<open>MAX_TEMP_ERROR\<close>, \<^verbatim>\<open>MAX_NUMBER_OF_ITERATIONS\<close>,
    \<^verbatim>\<open>PRINT_FREQUENCY\<close> and \<^verbatim>\<open>VERSION_RUN\<close> come from \<^verbatim>\<open>util.h\<close> and the compiler flags;
    they are the fields of the record \<open>config\<close>, a parameter of every definition.
  \<^item> The grids filled by \<^verbatim>\<open>initialise_temperatures\<close> (also of \<^verbatim>\<open>util.h\<close>) are parameters.
  \<^item> The MPI library is modelled by what its calls do to the state of a process: a request
    handle holds the pending operation, a send puts the row, as it is at the call, into the
    outbox of the sender, the wait for a receive takes the row from the outbox of the source.
    MPI delivers the row as it was at the call only if the program leaves the buffer alone
    until it has waited for the send. With two or more rows per process the program does so
    and the model is faithful; with one row per process it writes the buffer of a pending
    send, and what MPI then delivers is not defined: the model still delivers the row as it
    was at the call, and nothing is claimed of the rows delivered in that case.
  \<^item> What the program prints (the number of processes, the progress reports of
    \<^verbatim>\<open>track_progress\<close>, the summary and the verification cell) and the timer do not change the
    grids; of these only the call of \<^verbatim>\<open>track_progress\<close> is kept, as an event.
\<close>

subsection \<open>Configuration and data\<close>

record config =
  ROWS :: nat
  COLUMNS :: nat
  MAX_TEMP_ERROR :: real
  MAX_NUMBER_OF_ITERATIONS :: int
  PRINT_FREQUENCY :: int
  VERSION_RUN :: string

text \<open>\<^verbatim>\<open>double temperature[ROWS+2][COLUMNS+2]\<close>: row index first, then column index.\<close>

type_synonym grid = "nat \<Rightarrow> nat \<Rightarrow> real"

text \<open>The four request variables \<^verbatim>\<open>top_send\<close>, \<^verbatim>\<open>top_recv\<close>, \<^verbatim>\<open>bottom_send\<close>, \<^verbatim>\<open>bottom_recv\<close>.\<close>

datatype handle = Top_Send | Top_Recv | Bottom_Send | Bottom_Recv

text \<open>
  The value of a request variable: \<^verbatim>\<open>MPI_REQUEST_NULL\<close>, or a pending operation with the
  row of its buffer, the rank of the peer and the tag.
\<close>

datatype request =
    MPI_REQUEST_NULL
  | Send_Request nat int int
  | Recv_Request nat int int

text \<open>
  What a process does, in the order of its program: the calls of MPI with their arguments
  (a wait records the value of the request it was called on), the assignments to cells of
  \<^verbatim>\<open>temperature\<close>, the OpenMP barrier, the cells of the delta pass and the progress report.
\<close>

datatype event =
    Wait handle request
  | Write nat nat
  | Irecv handle nat int int
  | Isend handle nat int int
  | Omp_Barrier
  | Delta nat nat
  | Track_Progress int

text \<open>A message in flight: destination and tag, and the \<^verbatim>\<open>COLUMNS\<close> values of the row.\<close>

type_synonym message = "(int \<times> int) \<times> real list"

record rank_state =
  temperature :: grid
  temperature_last :: grid
  dt :: real
  requests :: "handle \<Rightarrow> request"
  outbox :: "message list"
  events :: "event list"
  interior_events :: "event list"

text \<open>
  How a run can fail to produce a result: \<^verbatim>\<open>MPI_Abort\<close> with the diagnostic printed before
  it (format string and arguments) and the exit status; an index outside an array; a wait
  that never returns; overflow of the \<^verbatim>\<open>int\<close> counter; the remainder of a division by zero.
\<close>

datatype failure =
    Aborted string "int list" int
  | Out_Of_Bounds
  | Blocked
  | Signed_Overflow
  | Division_By_Zero

fun bind_result :: "failure + 'a \<Rightarrow> ('a \<Rightarrow> failure + 'b) \<Rightarrow> failure + 'b" where
  "bind_result (Inl e) f = Inl e"
| "bind_result (Inr x) f = f x"

text \<open>\<^verbatim>\<open>EXIT_FAILURE\<close> of \<^verbatim>\<open>stdlib.h\<close>: 1 on the usual platforms, and never 0.\<close>

definition EXIT_FAILURE :: int where
  "EXIT_FAILURE = 1"

text \<open>The thread levels of \<^verbatim>\<open>mpi.h\<close> are 0, 1, 2, 3 in MPICH and Open MPI.\<close>

definition MPI_THREAD_MULTIPLE :: int where
  "MPI_THREAD_MULTIPLE = 3"

definition INT_MAX :: int where
  "INT_MAX = 2147483647"

subsection \<open>Startup checks (lines 46 to 66)\<close>

definition startup :: "config \<Rightarrow> int \<Rightarrow> int \<Rightarrow> failure + unit" where
  "startup cfg provided comm_size =
    (if provided < MPI_THREAD_MULTIPLE then
       Inl (Aborted (''The threading support level is lesser than that demanded.'' @ [CHR 0x0A])
              [] EXIT_FAILURE)
     else if VERSION_RUN cfg = ''hybrid_small'' \<and> comm_size \<noteq> 2 then
       Inl (Aborted (''The small version is meant to be run with 2 MPI processes, not %d.'' @ [CHR 0x0A])
              [comm_size] EXIT_FAILURE)
     else if VERSION_RUN cfg = ''hybrid_big'' \<and> comm_size \<noteq> 8 then
       Inl (Aborted (''The big version is meant to be run with 8 MPI processes, not %d.'' @ [CHR 0x0A])
              [comm_size] EXIT_FAILURE)
     else Inr ())"

subsection \<open>The stencil (lines 109, 121 and 166)\<close>

text \<open>
  The program evaluates the right-hand side for \<open>i \<ge> 1\<close> and \<open>j \<ge> 1\<close> only, so that the
  indices \<open>i - 1\<close> and \<open>j - 1\<close> are those of the C expression.
\<close>

definition stencil :: "grid \<Rightarrow> nat \<Rightarrow> nat \<Rightarrow> real" where
  "stencil previous i j =
     0.25 * (previous (i + 1) j + previous (i - 1) j + previous i (j + 1) + previous i (j - 1))"

definition assign_cell :: "nat \<Rightarrow> nat \<Rightarrow> rank_state \<Rightarrow> rank_state" where
  "assign_cell i j s =
     s\<lparr>temperature := (temperature s)(i := (temperature s i)(j := stencil (temperature_last s) i j))\<rparr>"

text \<open>The assignment as thread 0 does it (rows 1 and \<^verbatim>\<open>ROWS\<close>) and as the other threads do it.\<close>

definition boundary_cell :: "nat \<Rightarrow> nat \<Rightarrow> rank_state \<Rightarrow> rank_state" where
  "boundary_cell i j s = (assign_cell i j s)\<lparr>events := events s @ [Write i j]\<rparr>"

definition interior_cell :: "nat \<Rightarrow> nat \<Rightarrow> rank_state \<Rightarrow> rank_state" where
  "interior_cell i j s = (assign_cell i j s)\<lparr>interior_events := interior_events s @ [Write i j]\<rparr>"

text \<open>\<^verbatim>\<open>for(unsigned int j = 1; j <= COLUMNS; j++)\<close> over one row.\<close>

definition boundary_row :: "config \<Rightarrow> nat \<Rightarrow> rank_state \<Rightarrow> rank_state" where
  "boundary_row cfg i s = fold (boundary_cell i) [1 ..< Suc (COLUMNS cfg)] s"

text \<open>
  Lines 161 to 171: rows 2 to \<^verbatim>\<open>ROWS - 1\<close>. (For \<^verbatim>\<open>ROWS = 0\<close> the bound \<^verbatim>\<open>ROWS - 1\<close> becomes
  the largest unsigned value and the loop leaves the arrays; \<open>compute_phase\<close> below
  refuses this.)
\<close>

definition interior_task :: "config \<Rightarrow> rank_state \<Rightarrow> rank_state" where
  "interior_task cfg s =
     fold (\<lambda>i. fold (interior_cell i) [1 ..< Suc (COLUMNS cfg)]) [2 ..< ROWS cfg] s"

subsection \<open>The MPI calls\<close>

text \<open>The datatype \<^verbatim>\<open>column\<close>: \<^verbatim>\<open>COLUMNS\<close> contiguous doubles, starting at column 1 of a row.\<close>

definition load_row :: "config \<Rightarrow> grid \<Rightarrow> nat \<Rightarrow> real list" where
  "load_row cfg g row = map (g row) [1 ..< Suc (COLUMNS cfg)]"

definition store_row :: "grid \<Rightarrow> nat \<Rightarrow> real list \<Rightarrow> grid" where
  "store_row g row xs = (\<lambda>i j. if i = row \<and> 1 \<le> j \<and> j \<le> length xs then xs ! (j - 1) else g i j)"

definition MPI_Irecv :: "handle \<Rightarrow> nat \<Rightarrow> int \<Rightarrow> int \<Rightarrow> rank_state \<Rightarrow> rank_state" where
  "MPI_Irecv h row source tag s =
     s\<lparr>requests := (requests s)(h := Recv_Request row source tag),
       events := events s @ [Irecv h row source tag]\<rparr>"

text \<open>
  \<^verbatim>\<open>MPI_Isend\<close> copies the row into the outbox at the call. This is what MPI delivers as long
  as the buffer is not written before the wait on the request; the events \<open>Write\<close>, \<open>Isend\<close>
  and \<open>Wait\<close> record what is needed to check this (\<open>send_buffers_safe\<close> below).
\<close>

definition MPI_Isend :: "config \<Rightarrow> handle \<Rightarrow> nat \<Rightarrow> int \<Rightarrow> int \<Rightarrow> rank_state \<Rightarrow> rank_state" where
  "MPI_Isend cfg h row dest tag s =
     s\<lparr>requests := (requests s)(h := Send_Request row dest tag),
       outbox := outbox s @ [((dest, tag), load_row cfg (temperature s) row)],
       events := events s @ [Isend h row dest tag]\<rparr>"

text \<open>The message of a completed send leaves the outbox: the first one with its destination and tag.\<close>

fun complete_send :: "int \<times> int \<Rightarrow> message list \<Rightarrow> message list" where
  "complete_send k [] = []"
| "complete_send k (m # ms) = (if fst m = k then ms else m # complete_send k ms)"

text \<open>
  \<^verbatim>\<open>MPI_Wait\<close>. On \<^verbatim>\<open>MPI_REQUEST_NULL\<close> it returns at once. The wait for a send frees the
  request. The wait for a receive stores the row that \<open>inbox\<close> holds for the source and the
  tag into the buffer; with no such message it never returns.
\<close>

definition MPI_Wait :: "(int \<Rightarrow> int \<Rightarrow> real list option) \<Rightarrow> handle \<Rightarrow> rank_state \<Rightarrow> failure + rank_state" where
  "MPI_Wait inbox h s =
     (case requests s h of
        MPI_REQUEST_NULL \<Rightarrow> Inr (s\<lparr>events := events s @ [Wait h MPI_REQUEST_NULL]\<rparr>)
      | Send_Request row dest tag \<Rightarrow>
          Inr (s\<lparr>requests := (requests s)(h := MPI_REQUEST_NULL),
                 outbox := complete_send (dest, tag) (outbox s),
                 events := events s @ [Wait h (Send_Request row dest tag)]\<rparr>)
      | Recv_Request row source tag \<Rightarrow>
          (case inbox source tag of
             None \<Rightarrow> Inl Blocked
           | Some xs \<Rightarrow>
               Inr (s\<lparr>temperature_last := store_row (temperature_last s) row xs,
                      requests := (requests s)(h := MPI_REQUEST_NULL),
                      events := events s @ [Wait h (Recv_Request row source tag)]\<rparr>)))"

subsection \<open>Thread 0: waits, boundary rows, launch of the next exchange (lines 104 to 155)\<close>

definition launch_exchange :: "config \<Rightarrow> int \<Rightarrow> int \<Rightarrow> rank_state \<Rightarrow> rank_state" where
  "launch_exchange cfg comm_size my_rank s0 =
     (let s1 = (if my_rank \<noteq> 0 then MPI_Irecv Top_Recv 0 (my_rank - 1) 0 s0 else s0);
          s2 = (if my_rank \<noteq> 0 then MPI_Isend cfg Top_Send 1 (my_rank - 1) 1 s1 else s1);
          s3 = (if my_rank \<noteq> comm_size - 1
                then MPI_Isend cfg Bottom_Send (ROWS cfg) (my_rank + 1) 0 s2 else s2)
      in if my_rank \<noteq> comm_size - 1
         then MPI_Irecv Bottom_Recv (ROWS cfg + 1) (my_rank + 1) 1 s3 else s3)"

definition boundary_task ::
  "config \<Rightarrow> int \<Rightarrow> int \<Rightarrow> (int \<Rightarrow> int \<Rightarrow> real list option) \<Rightarrow> rank_state \<Rightarrow> failure + rank_state" where
  "boundary_task cfg comm_size my_rank inbox s0 =
     bind_result (MPI_Wait inbox Top_Send s0) (\<lambda>s1.
     bind_result (MPI_Wait inbox Top_Recv s1) (\<lambda>s2.
     bind_result (MPI_Wait inbox Bottom_Send (boundary_row cfg 1 s2)) (\<lambda>s3.
     bind_result (MPI_Wait inbox Bottom_Recv s3) (\<lambda>s4.
     Inr (launch_exchange cfg comm_size my_rank (boundary_row cfg (ROWS cfg) s4))))))"

subsection \<open>The delta pass (lines 178 to 192)\<close>

definition delta_cell :: "nat \<Rightarrow> nat \<Rightarrow> rank_state \<Rightarrow> rank_state" where
  "delta_cell i j s =
     s\<lparr>dt := max \<bar>temperature s i j - temperature_last s i j\<bar> (dt s),
       temperature_last := (temperature_last s)(i := (temperature_last s i)(j := temperature s i j)),
       events := events s @ [Delta i j]\<rparr>"

text \<open>
  \<^verbatim>\<open>dt = 0.0\<close>, the barrier, then the two nested loops over the rows and columns. OpenMP
  shares the cells among the threads and joins their maxima with the 0 in \<^verbatim>\<open>dt\<close>; the model
  visits the cells row by row (lemma \<open>delta_cells_order\<close>: any other order gives the same).
\<close>

definition delta_pass :: "config \<Rightarrow> rank_state \<Rightarrow> rank_state" where
  "delta_pass cfg s =
     fold (\<lambda>i. fold (delta_cell i) [1 ..< Suc (COLUMNS cfg)]) [1 ..< Suc (ROWS cfg)]
       (s\<lparr>dt := 0, events := events s @ [Omp_Barrier]\<rparr>)"

subsection \<open>One execution of the loop body by one process (lines 98 to 209)\<close>

text \<open>
  The parallel region up to the barrier: thread 0 runs \<open>boundary_task\<close>, the other threads
  \<open>interior_task\<close>. They write different rows of \<^verbatim>\<open>temperature\<close> and \<open>interior_task\<close> reads
  rows 1 to \<^verbatim>\<open>ROWS\<close> of \<^verbatim>\<open>temperature_last\<close> only, which thread 0 leaves alone; the model runs
  thread 0 first (lemma \<open>compute_phase_order\<close>: the other order gives the same state) and
  keeps the events of the two threads in two lists.

  With \<^verbatim>\<open>ROWS = 0\<close> the grids have two rows: thread 0 reads row 2 and the row loop of the
  other threads does not stop at the last row. No index is outside the arrays otherwise.
\<close>

definition compute_phase ::
  "config \<Rightarrow> int \<Rightarrow> int \<Rightarrow> (int \<Rightarrow> int \<Rightarrow> real list option) \<Rightarrow> rank_state \<Rightarrow> failure + rank_state" where
  "compute_phase cfg comm_size my_rank inbox s =
     (if ROWS cfg = 0 then Inl Out_Of_Bounds
      else bind_result (boundary_task cfg comm_size my_rank inbox s) (\<lambda>s'. Inr (interior_task cfg s')))"

definition track_progress :: "int \<Rightarrow> rank_state \<Rightarrow> rank_state" where
  "track_progress iteration s = s\<lparr>events := events s @ [Track_Progress iteration]\<rparr>"

text \<open>
  \<open>iteration\<close> is the counter after \<^verbatim>\<open>iteration++\<close>. The reduction \<^verbatim>\<open>MPI_Iallreduce\<close> joins all
  processes and is part of \<open>lockstep\<close> below.
\<close>

definition loop_body ::
  "config \<Rightarrow> int \<Rightarrow> int \<Rightarrow> int \<Rightarrow> (int \<Rightarrow> int \<Rightarrow> real list option) \<Rightarrow> rank_state \<Rightarrow> failure + rank_state" where
  "loop_body cfg comm_size my_rank iteration inbox s =
     bind_result (compute_phase cfg comm_size my_rank inbox s) (\<lambda>s1.
       let s2 = delta_pass cfg s1 in
       if PRINT_FREQUENCY cfg = 0 then Inl Division_By_Zero
       else if iteration smod PRINT_FREQUENCY cfg = 0 \<and> my_rank = comm_size - 1
            then Inr (track_progress iteration s2)
            else Inr s2)"

subsection \<open>All processes together\<close>

text \<open>
  The reduction at the end of the body completes on a process only when every process has
  reached it, so the processes run the loop in lockstep: the messages a process waits for
  in one execution of the body are those its neighbours sent in the execution before, and
  they are still in the outboxes of the states \<open>rs\<close> the execution starts from.
\<close>

definition inbox_of :: "rank_state list \<Rightarrow> int \<Rightarrow> int \<Rightarrow> int \<Rightarrow> real list option" where
  "inbox_of rs my_rank source tag =
     (if 0 \<le> source \<and> nat source < length rs
      then map_of (outbox (rs ! nat source)) (my_rank, tag) else None)"

fun sequence :: "(failure + 'a) list \<Rightarrow> failure + 'a list" where
  "sequence [] = Inr []"
| "sequence (Inl e # xs) = Inl e"
| "sequence (Inr y # xs) = bind_result (sequence xs) (\<lambda>ys. Inr (y # ys))"

text \<open>\<^verbatim>\<open>MPI_MAX\<close> over the values of all processes (there is at least one).\<close>

fun allreduce_max :: "real list \<Rightarrow> real" where
  "allreduce_max (x # xs) = fold max xs x"

definition lockstep :: "config \<Rightarrow> int \<Rightarrow> rank_state list \<Rightarrow> failure + (real \<times> rank_state list)" where
  "lockstep cfg iteration rs =
     bind_result
       (sequence (map (\<lambda>r. loop_body cfg (int (length rs)) (int r) iteration (inbox_of rs (int r)) (rs ! r))
                      [0 ..< length rs]))
       (\<lambda>rs'. Inr (allreduce_max (map dt rs'), rs'))"

text \<open>
  \<^verbatim>\<open>while(dt_global > MAX_TEMP_ERROR && iteration <= MAX_NUMBER_OF_ITERATIONS)\<close> with
  \<^verbatim>\<open>iteration++\<close> first in the body. Every process holds the same counter and the same
  \<^verbatim>\<open>dt_global\<close>.
\<close>

function relax_loop ::
  "config \<Rightarrow> int \<Rightarrow> real \<Rightarrow> rank_state list \<Rightarrow> failure + (int \<times> real \<times> rank_state list)" where
  "relax_loop cfg iteration dt_global rs =
     (if dt_global > MAX_TEMP_ERROR cfg \<and> iteration \<le> MAX_NUMBER_OF_ITERATIONS cfg then
        (if INT_MAX \<le> iteration then Inl Signed_Overflow
         else bind_result (lockstep cfg (iteration + 1) rs)
                (\<lambda>(dt_global', rs'). relax_loop cfg (iteration + 1) dt_global' rs'))
      else Inr (iteration, dt_global, rs))"
  by pat_completeness auto
termination
  by (relation "measure (\<lambda>(cfg, iteration, dt_global, rs). nat (INT_MAX - iteration))") auto

text \<open>The state of a process before the loop (lines 28 to 82); \<^verbatim>\<open>dt\<close> is not yet assigned.\<close>

definition initial_state :: "grid \<Rightarrow> grid \<Rightarrow> rank_state" where
  "initial_state t0 t1 =
     \<lparr>temperature = t0, temperature_last = t1, dt = 0, requests = (\<lambda>h. MPI_REQUEST_NULL),
      outbox = [], events = [], interior_events = []\<rparr>"

definition dt_global_init :: real where
  "dt_global_init = 100"

text \<open>The four waits after the loop (lines 214 to 217).\<close>

definition final_waits :: "(int \<Rightarrow> int \<Rightarrow> real list option) \<Rightarrow> rank_state \<Rightarrow> failure + rank_state" where
  "final_waits inbox s0 =
     bind_result (MPI_Wait inbox Top_Send s0) (\<lambda>s1.
     bind_result (MPI_Wait inbox Top_Recv s1) (\<lambda>s2.
     bind_result (MPI_Wait inbox Bottom_Send s2) (\<lambda>s3.
     MPI_Wait inbox Bottom_Recv s3)))"

definition initial_ranks :: "nat \<Rightarrow> (nat \<Rightarrow> grid \<times> grid) \<Rightarrow> rank_state list" where
  "initial_ranks comm_size init =
     map (\<lambda>r. initial_state (fst (init r)) (snd (init r))) [0 ..< comm_size]"

text \<open>
  The whole run of \<open>comm_size\<close> processes, process \<open>r\<close> starting from the grids \<open>init r\<close>.
  The result is the final counter, the final \<^verbatim>\<open>dt_global\<close> and the states of the processes.
\<close>

definition main ::
  "config \<Rightarrow> int \<Rightarrow> nat \<Rightarrow> (nat \<Rightarrow> grid \<times> grid) \<Rightarrow> failure + (int \<times> real \<times> rank_state list)" where
  "main cfg provided comm_size init =
     bind_result (startup cfg provided (int comm_size)) (\<lambda>_.
       bind_result (relax_loop cfg 0 dt_global_init (initial_ranks comm_size init))
         (\<lambda>(iteration, dt_global, rs).
            bind_result
              (sequence (map (\<lambda>r. final_waits (inbox_of rs (int r)) (rs ! r)) [0 ..< length rs]))
              (\<lambda>rs'. Inr (iteration, dt_global, rs'))))"

subsection \<open>The loop, execution by execution\<close>

text \<open>
  The value of \<^verbatim>\<open>dt_global\<close> and the states of the processes after \<open>k\<close> executions of the
  loop body, whatever the loop test says: the states the loop goes through are among
  these (lemma \<open>relax_loop_runs\<close>).
\<close>

fun after_iterations ::
  "config \<Rightarrow> real \<Rightarrow> rank_state list \<Rightarrow> nat \<Rightarrow> failure + (real \<times> rank_state list)" where
  "after_iterations cfg dt_global0 rs0 0 = Inr (dt_global0, rs0)"
| "after_iterations cfg dt_global0 rs0 (Suc k) =
     bind_result (after_iterations cfg dt_global0 rs0 k)
       (\<lambda>(dt_global, rs). lockstep cfg (int k + 1) rs)"

subsection \<open>The outcome of a step that does not fail\<close>

text \<open>Whether a wait on a request of this value returns, and what it does when it returns.\<close>

definition wait_returns :: "(int \<Rightarrow> int \<Rightarrow> real list option) \<Rightarrow> request \<Rightarrow> bool" where
  "wait_returns inbox rq =
     (case rq of Recv_Request row source tag \<Rightarrow> inbox source tag \<noteq> None | _ \<Rightarrow> True)"

definition received :: "(int \<Rightarrow> int \<Rightarrow> real list option) \<Rightarrow> request \<Rightarrow> grid \<Rightarrow> grid" where
  "received inbox rq g =
     (case rq of
        Recv_Request row source tag \<Rightarrow>
          (case inbox source tag of Some xs \<Rightarrow> store_row g row xs | None \<Rightarrow> g)
      | _ \<Rightarrow> g)"

definition departed :: "request \<Rightarrow> message list \<Rightarrow> message list" where
  "departed rq ms = (case rq of Send_Request row dest tag \<Rightarrow> complete_send (dest, tag) ms | _ \<Rightarrow> ms)"

definition waited :: "(int \<Rightarrow> int \<Rightarrow> real list option) \<Rightarrow> handle \<Rightarrow> rank_state \<Rightarrow> rank_state" where
  "waited inbox h s =
     s\<lparr>temperature_last := received inbox (requests s h) (temperature_last s),
       requests := (requests s)(h := MPI_REQUEST_NULL),
       outbox := departed (requests s h) (outbox s),
       events := events s @ [Wait h (requests s h)]\<rparr>"

text \<open>The state thread 0 leaves when none of its four waits blocks.\<close>

definition boundary_result ::
  "config \<Rightarrow> int \<Rightarrow> int \<Rightarrow> (int \<Rightarrow> int \<Rightarrow> real list option) \<Rightarrow> rank_state \<Rightarrow> rank_state" where
  "boundary_result cfg comm_size my_rank inbox s =
     launch_exchange cfg comm_size my_rank
       (boundary_row cfg (ROWS cfg)
          (waited inbox Bottom_Recv (waited inbox Bottom_Send
             (boundary_row cfg 1
                (waited inbox Top_Recv (waited inbox Top_Send s))))))"

text \<open>The state a process leaves after one execution of the loop body that does not fail.\<close>

definition body_result ::
  "config \<Rightarrow> int \<Rightarrow> int \<Rightarrow> int \<Rightarrow> (int \<Rightarrow> int \<Rightarrow> real list option) \<Rightarrow> rank_state \<Rightarrow> rank_state" where
  "body_result cfg comm_size my_rank iteration inbox s =
     (let s2 = delta_pass cfg (interior_task cfg (boundary_result cfg comm_size my_rank inbox s))
      in if iteration smod PRINT_FREQUENCY cfg = 0 \<and> my_rank = comm_size - 1
         then track_progress iteration s2 else s2)"

definition lockstep_result :: "config \<Rightarrow> int \<Rightarrow> rank_state list \<Rightarrow> rank_state list" where
  "lockstep_result cfg iteration rs =
     map (\<lambda>r. body_result cfg (int (length rs)) (int r) iteration (inbox_of rs (int r)) (rs ! r))
       [0 ..< length rs]"

subsection \<open>The exchange a process has launched\<close>

text \<open>
  What \<open>launch_exchange\<close> leaves behind on process \<open>my_rank\<close> of \<open>comm_size\<close>: the values
  of the four requests, the messages in the outbox (from the rows of the grid \<open>t\<close>) and
  the events it records.
\<close>

definition launched_requests :: "config \<Rightarrow> int \<Rightarrow> int \<Rightarrow> handle \<Rightarrow> request" where
  "launched_requests cfg comm_size my_rank h =
     (case h of
        Top_Send \<Rightarrow> if my_rank \<noteq> 0 then Send_Request 1 (my_rank - 1) 1 else MPI_REQUEST_NULL
      | Top_Recv \<Rightarrow> if my_rank \<noteq> 0 then Recv_Request 0 (my_rank - 1) 0 else MPI_REQUEST_NULL
      | Bottom_Send \<Rightarrow>
          if my_rank \<noteq> comm_size - 1 then Send_Request (ROWS cfg) (my_rank + 1) 0
          else MPI_REQUEST_NULL
      | Bottom_Recv \<Rightarrow>
          if my_rank \<noteq> comm_size - 1 then Recv_Request (ROWS cfg + 1) (my_rank + 1) 1
          else MPI_REQUEST_NULL)"

definition launched_messages :: "config \<Rightarrow> int \<Rightarrow> int \<Rightarrow> grid \<Rightarrow> message list" where
  "launched_messages cfg comm_size my_rank t =
     (if my_rank \<noteq> 0 then [((my_rank - 1, 1), load_row cfg t 1)] else []) @
     (if my_rank \<noteq> comm_size - 1 then [((my_rank + 1, 0), load_row cfg t (ROWS cfg))] else [])"

definition launch_events :: "config \<Rightarrow> int \<Rightarrow> int \<Rightarrow> event list" where
  "launch_events cfg comm_size my_rank =
     (if my_rank \<noteq> 0
      then [Irecv Top_Recv 0 (my_rank - 1) 0, Isend Top_Send 1 (my_rank - 1) 1] else []) @
     (if my_rank \<noteq> comm_size - 1
      then [Isend Bottom_Send (ROWS cfg) (my_rank + 1) 0,
            Irecv Bottom_Recv (ROWS cfg + 1) (my_rank + 1) 1] else [])"

text \<open>
  The two situations at the head of the loop: no exchange has been launched yet, or every
  process holds the requests and the messages of the exchange it launched last.
\<close>

definition quiet :: "rank_state list \<Rightarrow> bool" where
  "quiet rs = (\<forall>r < length rs. requests (rs ! r) = (\<lambda>h. MPI_REQUEST_NULL) \<and> outbox (rs ! r) = [])"

definition exchange_pending :: "config \<Rightarrow> rank_state list \<Rightarrow> bool" where
  "exchange_pending cfg rs =
     (\<forall>r < length rs.
        requests (rs ! r) = launched_requests cfg (int (length rs)) (int r) \<and>
        outbox (rs ! r) = launched_messages cfg (int (length rs)) (int r) (temperature (rs ! r)))"

text \<open>
  The receives pending on a process for a source and a tag (as request variables), and
  the messages in its outbox for a destination and a tag.
\<close>

definition matching_receives :: "rank_state \<Rightarrow> int \<Rightarrow> int \<Rightarrow> handle list" where
  "matching_receives s source tag =
     filter (\<lambda>h. case requests s h of Recv_Request row src t \<Rightarrow> src = source \<and> t = tag | _ \<Rightarrow> False)
       [Top_Send, Top_Recv, Bottom_Send, Bottom_Recv]"

definition matching_sends :: "rank_state \<Rightarrow> int \<Rightarrow> int \<Rightarrow> message list" where
  "matching_sends s dest tag = filter (\<lambda>m. fst m = (dest, tag)) (outbox s)"

subsection \<open>Events and their order\<close>

text \<open>Kinds of events, and the order of two kinds of events in a list.\<close>

fun is_launch :: "event \<Rightarrow> bool" where
  "is_launch (Isend h row dest tag) = True"
| "is_launch (Irecv h row source tag) = True"
| "is_launch e = False"

fun is_delta :: "event \<Rightarrow> bool" where
  "is_delta (Delta i j) = True"
| "is_delta e = False"

fun is_barrier :: "event \<Rightarrow> bool" where
  "is_barrier Omp_Barrier = True"
| "is_barrier e = False"

fun is_write :: "event \<Rightarrow> bool" where
  "is_write (Write i j) = True"
| "is_write e = False"

fun is_write_row :: "nat \<Rightarrow> event \<Rightarrow> bool" where
  "is_write_row row (Write i j) = (i = row)"
| "is_write_row row e = False"

fun is_wait :: "event \<Rightarrow> bool" where
  "is_wait (Wait h rq) = True"
| "is_wait e = False"

fun is_wait_on :: "handle \<Rightarrow> event \<Rightarrow> bool" where
  "is_wait_on h (Wait h' rq) = (h' = h)"
| "is_wait_on h e = False"

text \<open>The request variable and the peer of a call of \<^verbatim>\<open>MPI_Isend\<close> or \<^verbatim>\<open>MPI_Irecv\<close>.\<close>

fun handle_of :: "event \<Rightarrow> handle option" where
  "handle_of (Isend h row dest tag) = Some h"
| "handle_of (Irecv h row source tag) = Some h"
| "handle_of e = None"

fun peer_of :: "event \<Rightarrow> int option" where
  "peer_of (Isend h row dest tag) = Some dest"
| "peer_of (Irecv h row source tag) = Some source"
| "peer_of e = None"

text \<open>
  \<open>all_before P Q es\<close>: in the list \<open>es\<close> every event of kind \<open>P\<close> stands before every event
  of kind \<open>Q\<close> (lemma \<open>all_before_iff\<close>): from the first \<open>Q\<close> on there is no \<open>P\<close>.
\<close>

fun all_before :: "('a \<Rightarrow> bool) \<Rightarrow> ('a \<Rightarrow> bool) \<Rightarrow> 'a list \<Rightarrow> bool" where
  "all_before P Q [] = True"
| "all_before P Q (e # es) =
     (if Q e then \<not> P e \<and> list_all (\<lambda>x. \<not> P x) es else all_before P Q es)"

text \<open>The events of thread 0 in the outcome of a step (none when the step failed).\<close>

fun events_of :: "failure + rank_state \<Rightarrow> event list" where
  "events_of (Inl e) = []"
| "events_of (Inr s) = events s"

text \<open>The events of thread 0 of process \<open>r\<close> in the result of a run (none when it failed).\<close>

fun events_of_rank :: "nat \<Rightarrow> failure + (int \<times> real \<times> rank_state list) \<Rightarrow> event list" where
  "events_of_rank r (Inl e) = []"
| "events_of_rank r (Inr (iteration, dt_global, rs)) = events (rs ! r)"

subsection \<open>Send buffers\<close>

text \<open>
  Send buffers. \<open>requests_after\<close> follows the request variables along the events;
  \<open>sends_row rq i\<close> says that a send with row \<open>i\<close> of \<^verbatim>\<open>temperature\<close> as its buffer is pending;
  \<open>send_buffers_safe rq es\<close> says that, starting with the requests \<open>rq\<close>, no event of \<open>es\<close>
  writes a cell of a row while a send from that row is pending.
\<close>

fun requests_after :: "(handle \<Rightarrow> request) \<Rightarrow> event \<Rightarrow> (handle \<Rightarrow> request)" where
  "requests_after rq (Wait h r) = rq(h := MPI_REQUEST_NULL)"
| "requests_after rq (Isend h row dest tag) = rq(h := Send_Request row dest tag)"
| "requests_after rq (Irecv h row source tag) = rq(h := Recv_Request row source tag)"
| "requests_after rq e = rq"

definition sends_row :: "(handle \<Rightarrow> request) \<Rightarrow> nat \<Rightarrow> bool" where
  "sends_row rq i =
     list_ex (\<lambda>h. case rq h of Send_Request row dest tag \<Rightarrow> row = i | _ \<Rightarrow> False)
       [Top_Send, Top_Recv, Bottom_Send, Bottom_Recv]"

fun writes_in_flight :: "(handle \<Rightarrow> request) \<Rightarrow> event \<Rightarrow> bool" where
  "writes_in_flight rq (Write i j) = sends_row rq i"
| "writes_in_flight rq e = False"

fun send_buffers_safe :: "(handle \<Rightarrow> request) \<Rightarrow> event list \<Rightarrow> bool" where
  "send_buffers_safe rq [] = True"
| "send_buffers_safe rq (e # es) =
     (\<not> writes_in_flight rq e \<and> send_buffers_safe (requests_after rq e) es)"

text \<open>
  For the proofs: \<open>send_buffers_safe\<close> together with the fact that, all along, pending
  sends have their buffers in the rows \<open>B\<close>.
\<close>

fun guarded :: "nat set \<Rightarrow> (handle \<Rightarrow> request) \<Rightarrow> event list \<Rightarrow> bool" where
  "guarded B rq [] = (\<forall>i. sends_row rq i \<longrightarrow> i \<in> B)"
| "guarded B rq (e # es) =
     ((\<forall>i. sends_row rq i \<longrightarrow> i \<in> B) \<and> \<not> writes_in_flight rq e \<and>
      guarded B (requests_after rq e) es)"

subsection \<open>The threshold and the cap\<close>

text \<open>
  Modelled from the spec: the values of the macros \<^verbatim>\<open>MAX_TEMP_ERROR\<close> and
  \<^verbatim>\<open>MAX_NUMBER_OF_ITERATIONS\<close>, which \<^verbatim>\<open>util.h\<close> defines and the sources do not contain. The
  documentation names a convergence threshold of 0.01 and a cap of 1500 iterations.
\<close>

definition spec_MAX_TEMP_ERROR :: real where
  "spec_MAX_TEMP_ERROR = 0.01"

definition spec_MAX_NUMBER_OF_ITERATIONS :: int where
  "spec_MAX_NUMBER_OF_ITERATIONS = 1500"

subsection \<open>Small configurations for examples\<close>

text \<open>
  Two rows and one column per process, with the threshold 0.01 and the cap 1500 of the
  scenario the documentation gives.
\<close>

definition example_config :: config where
  "example_config =
     \<lparr>ROWS = 2, COLUMNS = 1, MAX_TEMP_ERROR = 0.01, MAX_NUMBER_OF_ITERATIONS = 1500,
      PRINT_FREQUENCY = 100, VERSION_RUN = ''hybrid_small''\<rparr>"

definition example_state :: rank_state where
  "example_state = initial_state (\<lambda>i j. if i = 1 then 3 else 5) (\<lambda>i j. 1)"

text \<open>Initial grids for examples: 0 everywhere but 4 in row 0 of \<^verbatim>\<open>temperature_last\<close>.\<close>

definition example_init :: "nat \<Rightarrow> grid \<times> grid" where
  "example_init r = (\<lambda>i j. 0, \<lambda>i j. if i = 0 then 4 else 0)"

text \<open>One row per process, and a cap of one on the counter: the loop body runs at most twice.\<close>

definition one_row_config :: config where
  "one_row_config =
     \<lparr>ROWS = 1, COLUMNS = 1, MAX_TEMP_ERROR = 0.01, MAX_NUMBER_OF_ITERATIONS = 1,
      PRINT_FREQUENCY = 100, VERSION_RUN = ''hybrid_small''\<rparr>"

section \<open>Properties\<close>

declare relax_loop.simps [simp del]

subsection \<open>The row loops\<close>

lemma assign_cell_fields [simp]:
  "temperature (assign_cell i j s) = (temperature s)(i := (temperature s i)(j := stencil (temperature_last s) i j))"
  "temperature_last (assign_cell i j s) = temperature_last s"
  "dt (assign_cell i j s) = dt s"
  "requests (assign_cell i j s) = requests s"
  "outbox (assign_cell i j s) = outbox s"
  "events (assign_cell i j s) = events s"
  "interior_events (assign_cell i j s) = interior_events s"
  by (simp_all add: assign_cell_def)

lemma boundary_cell_fields [simp]:
  "temperature (boundary_cell i j s) = (temperature s)(i := (temperature s i)(j := stencil (temperature_last s) i j))"
  "temperature_last (boundary_cell i j s) = temperature_last s"
  "dt (boundary_cell i j s) = dt s"
  "requests (boundary_cell i j s) = requests s"
  "outbox (boundary_cell i j s) = outbox s"
  "events (boundary_cell i j s) = events s @ [Write i j]"
  "interior_events (boundary_cell i j s) = interior_events s"
  by (simp_all add: boundary_cell_def)

lemma interior_cell_fields [simp]:
  "temperature (interior_cell i j s) = (temperature s)(i := (temperature s i)(j := stencil (temperature_last s) i j))"
  "temperature_last (interior_cell i j s) = temperature_last s"
  "dt (interior_cell i j s) = dt s"
  "requests (interior_cell i j s) = requests s"
  "outbox (interior_cell i j s) = outbox s"
  "events (interior_cell i j s) = events s"
  "interior_events (interior_cell i j s) = interior_events s @ [Write i j]"
  by (simp_all add: interior_cell_def)

lemma fold_boundary_cell_fields [simp]:
  "temperature_last (fold (boundary_cell i) js s) = temperature_last s"
  "dt (fold (boundary_cell i) js s) = dt s"
  "requests (fold (boundary_cell i) js s) = requests s"
  "outbox (fold (boundary_cell i) js s) = outbox s"
  "events (fold (boundary_cell i) js s) = events s @ map (Write i) js"
  "interior_events (fold (boundary_cell i) js s) = interior_events s"
  by (induction js arbitrary: s; simp)+

lemma fold_boundary_cell_temperature:
  "temperature (fold (boundary_cell i) js s) i' j' =
     (if i' = i \<and> j' \<in> set js then stencil (temperature_last s) i j' else temperature s i' j')"
  by (induction js arbitrary: s) auto

lemma boundary_row_fields [simp]:
  "temperature_last (boundary_row cfg i s) = temperature_last s"
  "dt (boundary_row cfg i s) = dt s"
  "requests (boundary_row cfg i s) = requests s"
  "outbox (boundary_row cfg i s) = outbox s"
  "events (boundary_row cfg i s) = events s @ map (Write i) [1 ..< Suc (COLUMNS cfg)]"
  "interior_events (boundary_row cfg i s) = interior_events s"
  by (simp_all add: boundary_row_def)

lemma boundary_row_temperature:
  "temperature (boundary_row cfg i s) i' j =
     (if i' = i \<and> 1 \<le> j \<and> j \<le> COLUMNS cfg then stencil (temperature_last s) i j
      else temperature s i' j)"
  by (auto simp add: boundary_row_def fold_boundary_cell_temperature)

lemma fold_interior_cell_fields [simp]:
  "temperature_last (fold (interior_cell i) js s) = temperature_last s"
  "dt (fold (interior_cell i) js s) = dt s"
  "requests (fold (interior_cell i) js s) = requests s"
  "outbox (fold (interior_cell i) js s) = outbox s"
  "events (fold (interior_cell i) js s) = events s"
  "interior_events (fold (interior_cell i) js s) = interior_events s @ map (Write i) js"
  by (induction js arbitrary: s; simp)+

lemma fold_interior_cell_temperature:
  "temperature (fold (interior_cell i) js s) i' j' =
     (if i' = i \<and> j' \<in> set js then stencil (temperature_last s) i j' else temperature s i' j')"
  by (induction js arbitrary: s) auto

lemma fold_interior_rows_fields [simp]:
  "temperature_last (fold (\<lambda>i. fold (interior_cell i) js) is s) = temperature_last s"
  "dt (fold (\<lambda>i. fold (interior_cell i) js) is s) = dt s"
  "requests (fold (\<lambda>i. fold (interior_cell i) js) is s) = requests s"
  "outbox (fold (\<lambda>i. fold (interior_cell i) js) is s) = outbox s"
  "events (fold (\<lambda>i. fold (interior_cell i) js) is s) = events s"
  "interior_events (fold (\<lambda>i. fold (interior_cell i) js) is s) =
     interior_events s @ concat (map (\<lambda>i. map (Write i) js) is)"
  by (induction "is" arbitrary: s; simp)+

lemma fold_interior_rows_temperature:
  "temperature (fold (\<lambda>i. fold (interior_cell i) js) is s) i' j' =
     (if i' \<in> set is \<and> j' \<in> set js then stencil (temperature_last s) i' j' else temperature s i' j')"
  by (induction "is" arbitrary: s) (auto simp add: fold_interior_cell_temperature)

lemma interior_task_fields [simp]:
  "temperature_last (interior_task cfg s) = temperature_last s"
  "dt (interior_task cfg s) = dt s"
  "requests (interior_task cfg s) = requests s"
  "outbox (interior_task cfg s) = outbox s"
  "events (interior_task cfg s) = events s"
  "interior_events (interior_task cfg s) =
     interior_events s @ concat (map (\<lambda>i. map (Write i) [1 ..< Suc (COLUMNS cfg)]) [2 ..< ROWS cfg])"
  by (simp_all add: interior_task_def)

lemma interior_task_temperature:
  "temperature (interior_task cfg s) i j =
     (if 2 \<le> i \<and> i < ROWS cfg \<and> 1 \<le> j \<and> j \<le> COLUMNS cfg then stencil (temperature_last s) i j
      else temperature s i j)"
  by (auto simp add: interior_task_def fold_interior_rows_temperature)

subsection \<open>The delta pass\<close>

lemma delta_cell_fields [simp]:
  "temperature (delta_cell i j s) = temperature s"
  "temperature_last (delta_cell i j s) = (temperature_last s)(i := (temperature_last s i)(j := temperature s i j))"
  "dt (delta_cell i j s) = max \<bar>temperature s i j - temperature_last s i j\<bar> (dt s)"
  "requests (delta_cell i j s) = requests s"
  "outbox (delta_cell i j s) = outbox s"
  "events (delta_cell i j s) = events s @ [Delta i j]"
  "interior_events (delta_cell i j s) = interior_events s"
  by (simp_all add: delta_cell_def)

lemma fold_rows_product:
  "fold (\<lambda>i. fold (f i) js) is s = fold (\<lambda>(i, j). f i j) (List.product is js) s"
proof (induction "is" arbitrary: s)
  case Nil
  then show ?case by simp
next
  case (Cons i "is")
  have "fold (\<lambda>(i, j). f i j) (map (Pair i) js) s = fold (f i) js s"
    by (simp add: fold_map comp_def)
  with Cons show ?case by simp
qed

lemma fold_delta_cell_fields [simp]:
  "temperature (fold (\<lambda>(i, j). delta_cell i j) cs s) = temperature s"
  "requests (fold (\<lambda>(i, j). delta_cell i j) cs s) = requests s"
  "outbox (fold (\<lambda>(i, j). delta_cell i j) cs s) = outbox s"
  "interior_events (fold (\<lambda>(i, j). delta_cell i j) cs s) = interior_events s"
  "events (fold (\<lambda>(i, j). delta_cell i j) cs s) = events s @ map (\<lambda>(i, j). Delta i j) cs"
  by (induction cs arbitrary: s; simp add: case_prod_beta)+

lemma fold_delta_cell_temperature_last:
  "temperature_last (fold (\<lambda>(i, j). delta_cell i j) cs s) i j =
     (if (i, j) \<in> set cs then temperature s i j else temperature_last s i j)"
  by (induction cs arbitrary: s) (auto simp add: case_prod_beta)

lemma Max_insert_max:
  "finite S \<Longrightarrow> Max (insert (max a d) S) = max a (Max (insert (d::real) S))"
  by (cases "S = {}") (simp_all add: max.assoc)

lemma fold_delta_cell_dt:
  "distinct cs \<Longrightarrow>
   dt (fold (\<lambda>(i, j). delta_cell i j) cs s) =
     Max (insert (dt s) ((\<lambda>(i, j). \<bar>temperature s i j - temperature_last s i j\<bar>) ` set cs))"
proof (induction cs arbitrary: s)
  case Nil
  then show ?case by simp
next
  case (Cons c cs)
  obtain i j where c: "c = (i, j)" by (cases c)
  let ?s = "delta_cell i j s"
  have same: "(\<lambda>(i, j). \<bar>temperature ?s i j - temperature_last ?s i j\<bar>) ` set cs =
              (\<lambda>(i, j). \<bar>temperature s i j - temperature_last s i j\<bar>) ` set cs"
    using Cons.prems c by (intro image_cong) auto
  have "dt (fold (\<lambda>(i, j). delta_cell i j) (c # cs) s) =
          Max (insert (dt ?s) ((\<lambda>(i, j). \<bar>temperature ?s i j - temperature_last ?s i j\<bar>) ` set cs))"
    using Cons.IH [of ?s] Cons.prems c by simp
  also have "\<dots> = Max (insert (max \<bar>temperature s i j - temperature_last s i j\<bar> (dt s))
                      ((\<lambda>(i, j). \<bar>temperature s i j - temperature_last s i j\<bar>) ` set cs))"
    unfolding same by simp
  also have "\<dots> = max \<bar>temperature s i j - temperature_last s i j\<bar>
                     (Max (insert (dt s) ((\<lambda>(i, j). \<bar>temperature s i j - temperature_last s i j\<bar>) ` set cs)))"
    by (rule Max_insert_max) simp
  also have "\<dots> = Max (insert \<bar>temperature s i j - temperature_last s i j\<bar>
                     (insert (dt s) ((\<lambda>(i, j). \<bar>temperature s i j - temperature_last s i j\<bar>) ` set cs)))"
    by (rule Max_insert [symmetric]) simp_all
  also have "insert \<bar>temperature s i j - temperature_last s i j\<bar>
               (insert (dt s) ((\<lambda>(i, j). \<bar>temperature s i j - temperature_last s i j\<bar>) ` set cs)) =
             insert (dt s) ((\<lambda>(i, j). \<bar>temperature s i j - temperature_last s i j\<bar>) ` set (c # cs))"
    by (auto simp add: c)
  finally show ?case .
qed

lemma delta_pass_product:
  "delta_pass cfg s =
     fold (\<lambda>(i, j). delta_cell i j) (List.product [1 ..< Suc (ROWS cfg)] [1 ..< Suc (COLUMNS cfg)])
       (s\<lparr>dt := 0, events := events s @ [Omp_Barrier]\<rparr>)"
  by (simp add: delta_pass_def fold_rows_product)

lemma set_cells:
  "set (List.product [1 ..< Suc m] [1 ..< Suc n]) = {1..m} \<times> {1..n}"
  by auto

lemma delta_pass_fields [simp]:
  "temperature (delta_pass cfg s) = temperature s"
  "requests (delta_pass cfg s) = requests s"
  "outbox (delta_pass cfg s) = outbox s"
  "interior_events (delta_pass cfg s) = interior_events s"
  "events (delta_pass cfg s) = events s @ Omp_Barrier #
     map (\<lambda>(i, j). Delta i j) (List.product [1 ..< Suc (ROWS cfg)] [1 ..< Suc (COLUMNS cfg)])"
  by (simp_all add: delta_pass_product)

lemma delta_pass_temperature_last:
  "temperature_last (delta_pass cfg s) i j =
     (if 1 \<le> i \<and> i \<le> ROWS cfg \<and> 1 \<le> j \<and> j \<le> COLUMNS cfg then temperature s i j
      else temperature_last s i j)"
  by (auto simp add: delta_pass_product fold_delta_cell_temperature_last)

lemma delta_pass_dt:
  "dt (delta_pass cfg s) =
     Max (insert 0 ((\<lambda>(i, j). \<bar>temperature s i j - temperature_last s i j\<bar>) `
                     ({1..ROWS cfg} \<times> {1..COLUMNS cfg})))"
proof -
  have "distinct (List.product [1 ..< Suc (ROWS cfg)] [1 ..< Suc (COLUMNS cfg)])"
    by (simp add: distinct_product del: upt_Suc)
  from fold_delta_cell_dt [OF this] show ?thesis
    unfolding delta_pass_product set_cells by simp
qed

text \<open>
  Claim C2. The delta pass leaves in \<^verbatim>\<open>dt\<close> the largest of 0 and the values
  \<open>\<bar>temperature[i][j] - temperature_last[i][j]\<bar>\<close> over the cells with \<open>1 \<le> i \<le> ROWS\<close> and
  \<open>1 \<le> j \<le> COLUMNS\<close>, which is the largest of these values when there is a cell at all. The
  same pass leaves \<^verbatim>\<open>temperature\<close> as it was and copies it into \<^verbatim>\<open>temperature_last\<close> on
  these cells, so the two grids agree there afterwards; the halo rows and the boundary
  columns of \<^verbatim>\<open>temperature_last\<close> keep their values.
\<close>

theorem delta_pass_max_and_copy:
  "dt (delta_pass cfg s) =
     Max (insert 0 ((\<lambda>(i, j). \<bar>temperature s i j - temperature_last s i j\<bar>) `
                     ({1..ROWS cfg} \<times> {1..COLUMNS cfg})))
   \<and> (1 \<le> ROWS cfg \<and> 1 \<le> COLUMNS cfg \<longrightarrow>
        dt (delta_pass cfg s) =
          Max ((\<lambda>(i, j). \<bar>temperature s i j - temperature_last s i j\<bar>) `
                 ({1..ROWS cfg} \<times> {1..COLUMNS cfg})))
   \<and> temperature (delta_pass cfg s) = temperature s
   \<and> (\<forall>i j. 1 \<le> i \<and> i \<le> ROWS cfg \<and> 1 \<le> j \<and> j \<le> COLUMNS cfg \<longrightarrow>
        temperature_last (delta_pass cfg s) i j = temperature (delta_pass cfg s) i j)
   \<and> (\<forall>i j. \<not> (1 \<le> i \<and> i \<le> ROWS cfg \<and> 1 \<le> j \<and> j \<le> COLUMNS cfg) \<longrightarrow>
        temperature_last (delta_pass cfg s) i j = temperature_last s i j)"
proof -
  let ?S = "(\<lambda>(i, j). \<bar>temperature s i j - temperature_last s i j\<bar>) ` ({1..ROWS cfg} \<times> {1..COLUMNS cfg})"
  have fin: "finite ?S" by simp
  have nonneg: "\<forall>x \<in> ?S. 0 \<le> x" by auto
  have "Max (insert 0 ?S) = Max ?S" if "1 \<le> ROWS cfg" "1 \<le> COLUMNS cfg"
  proof -
    have ne: "?S \<noteq> {}" using that by auto
    then have "0 \<le> Max ?S" using nonneg fin by (meson Max_in)
    then show ?thesis using ne fin by simp
  qed
  then show ?thesis
    by (simp add: delta_pass_dt delta_pass_temperature_last)
qed

theorem delta_pass_max_and_copy_witness:
  "dt (delta_pass example_config example_state) = 4
   \<and> temperature_last (delta_pass example_config example_state) 2 1 = 5
   \<and> temperature_last (delta_pass example_config example_state) 2 0 = 1"
  using delta_pass_max_and_copy [of example_config example_state]
  by (simp add: example_config_def example_state_def initial_state_def numeral_2_eq_2
        atLeastAtMostSuc_conv)

subsection \<open>The calls of MPI and thread 0\<close>

lemma bind_result_Inr_iff:
  "bind_result m f = Inr y \<longleftrightarrow> (\<exists>x. m = Inr x \<and> f x = Inr y)"
  by (cases m) simp_all

lemma all_handles: "(\<forall>h. P h) \<longleftrightarrow> P Top_Send \<and> P Top_Recv \<and> P Bottom_Send \<and> P Bottom_Recv"
  by (metis handle.exhaust)

lemma waited_fields [simp]:
  "temperature (waited inbox h s) = temperature s"
  "temperature_last (waited inbox h s) = received inbox (requests s h) (temperature_last s)"
  "dt (waited inbox h s) = dt s"
  "requests (waited inbox h s) = (requests s)(h := MPI_REQUEST_NULL)"
  "outbox (waited inbox h s) = departed (requests s h) (outbox s)"
  "events (waited inbox h s) = events s @ [Wait h (requests s h)]"
  "interior_events (waited inbox h s) = interior_events s"
  by (simp_all add: waited_def)

lemma MPI_Wait_eq:
  "MPI_Wait inbox h s =
     (if wait_returns inbox (requests s h) then Inr (waited inbox h s) else Inl Blocked)"
  by (cases "requests s h")
     (auto simp add: MPI_Wait_def wait_returns_def waited_def received_def departed_def
           fun_upd_idem split: option.splits)

lemma wait_returns_simps [simp]:
  "wait_returns inbox MPI_REQUEST_NULL"
  "wait_returns inbox (Send_Request row dest tag)"
  "wait_returns inbox (Recv_Request row source tag) \<longleftrightarrow> inbox source tag \<noteq> None"
  by (simp_all add: wait_returns_def)

lemma received_simps [simp]:
  "received inbox MPI_REQUEST_NULL g = g"
  "received inbox (Send_Request row dest tag) g = g"
  "inbox source tag = Some xs \<Longrightarrow> received inbox (Recv_Request row source tag) g = store_row g row xs"
  by (simp_all add: received_def)

lemma departed_simps [simp]:
  "departed MPI_REQUEST_NULL ms = ms"
  "departed (Recv_Request row source tag) ms = ms"
  "departed (Send_Request row dest tag) ms = complete_send (dest, tag) ms"
  by (simp_all add: departed_def)

lemma MPI_Irecv_fields [simp]:
  "temperature (MPI_Irecv h row source tag s) = temperature s"
  "temperature_last (MPI_Irecv h row source tag s) = temperature_last s"
  "dt (MPI_Irecv h row source tag s) = dt s"
  "requests (MPI_Irecv h row source tag s) = (requests s)(h := Recv_Request row source tag)"
  "outbox (MPI_Irecv h row source tag s) = outbox s"
  "events (MPI_Irecv h row source tag s) = events s @ [Irecv h row source tag]"
  "interior_events (MPI_Irecv h row source tag s) = interior_events s"
  by (simp_all add: MPI_Irecv_def)

lemma MPI_Isend_fields [simp]:
  "temperature (MPI_Isend cfg h row dest tag s) = temperature s"
  "temperature_last (MPI_Isend cfg h row dest tag s) = temperature_last s"
  "dt (MPI_Isend cfg h row dest tag s) = dt s"
  "requests (MPI_Isend cfg h row dest tag s) = (requests s)(h := Send_Request row dest tag)"
  "outbox (MPI_Isend cfg h row dest tag s) = outbox s @ [((dest, tag), load_row cfg (temperature s) row)]"
  "events (MPI_Isend cfg h row dest tag s) = events s @ [Isend h row dest tag]"
  "interior_events (MPI_Isend cfg h row dest tag s) = interior_events s"
  by (simp_all add: MPI_Isend_def)

lemma launch_exchange_fields [simp]:
  "temperature (launch_exchange cfg n r s) = temperature s"
  "temperature_last (launch_exchange cfg n r s) = temperature_last s"
  "dt (launch_exchange cfg n r s) = dt s"
  "interior_events (launch_exchange cfg n r s) = interior_events s"
  "outbox (launch_exchange cfg n r s) = outbox s @ launched_messages cfg n r (temperature s)"
  "events (launch_exchange cfg n r s) = events s @ launch_events cfg n r"
  by (simp_all add: launch_exchange_def Let_def launched_messages_def launch_events_def)

lemma launch_exchange_requests:
  "requests (launch_exchange cfg n r s) h =
     (if launched_requests cfg n r h = MPI_REQUEST_NULL then requests s h
      else launched_requests cfg n r h)"
  by (cases h) (simp_all add: launch_exchange_def Let_def launched_requests_def)

lemma boundary_task_eq:
  "boundary_task cfg n r inbox s =
     (if \<forall>h. wait_returns inbox (requests s h) then Inr (boundary_result cfg n r inbox s)
      else Inl Blocked)"
  by (simp add: boundary_task_def boundary_result_def MPI_Wait_eq all_handles)

lemma boundary_result_fields [simp]:
  "dt (boundary_result cfg n r inbox s) = dt s"
  "interior_events (boundary_result cfg n r inbox s) = interior_events s"
  "requests (boundary_result cfg n r inbox s) = launched_requests cfg n r"
  by (simp_all add: boundary_result_def fun_eq_iff launch_exchange_requests all_handles)

lemma boundary_result_events:
  "events (boundary_result cfg n r inbox s) =
     events s @ [Wait Top_Send (requests s Top_Send), Wait Top_Recv (requests s Top_Recv)] @
     map (Write 1) [1 ..< Suc (COLUMNS cfg)] @
     [Wait Bottom_Send (requests s Bottom_Send), Wait Bottom_Recv (requests s Bottom_Recv)] @
     map (Write (ROWS cfg)) [1 ..< Suc (COLUMNS cfg)] @
     launch_events cfg n r"
  by (simp add: boundary_result_def del: upt_Suc)

lemma boundary_result_temperature_last:
  "temperature_last (boundary_result cfg n r inbox s) =
     received inbox (requests s Bottom_Recv) (received inbox (requests s Bottom_Send)
       (received inbox (requests s Top_Recv) (received inbox (requests s Top_Send)
          (temperature_last s))))"
  by (simp add: boundary_result_def)

lemma boundary_result_outbox:
  "outbox (boundary_result cfg n r inbox s) =
     departed (requests s Bottom_Recv) (departed (requests s Bottom_Send)
       (departed (requests s Top_Recv) (departed (requests s Top_Send) (outbox s)))) @
     launched_messages cfg n r (temperature (boundary_result cfg n r inbox s))"
  by (simp add: boundary_result_def)

lemma boundary_result_temperature:
  "temperature (boundary_result cfg n r inbox s) i j =
     (if i = ROWS cfg \<and> 1 \<le> j \<and> j \<le> COLUMNS cfg
      then stencil (temperature_last (boundary_result cfg n r inbox s)) i j
      else if i = 1 \<and> 1 \<le> j \<and> j \<le> COLUMNS cfg
      then stencil (received inbox (requests s Top_Recv) (received inbox (requests s Top_Send)
                      (temperature_last s))) i j
      else temperature s i j)"
  by (simp add: boundary_result_def boundary_row_temperature)

subsection \<open>One execution of the loop body\<close>

lemma track_progress_fields [simp]:
  "temperature (track_progress it s) = temperature s"
  "temperature_last (track_progress it s) = temperature_last s"
  "dt (track_progress it s) = dt s"
  "requests (track_progress it s) = requests s"
  "outbox (track_progress it s) = outbox s"
  "events (track_progress it s) = events s @ [Track_Progress it]"
  "interior_events (track_progress it s) = interior_events s"
  by (simp_all add: track_progress_def)

lemma loop_body_eq:
  "loop_body cfg n r it inbox s =
     (if ROWS cfg = 0 then Inl Out_Of_Bounds
      else if \<not> (\<forall>h. wait_returns inbox (requests s h)) then Inl Blocked
      else if PRINT_FREQUENCY cfg = 0 then Inl Division_By_Zero
      else Inr (body_result cfg n r it inbox s))"
  by (simp add: loop_body_def compute_phase_def boundary_task_eq body_result_def Let_def)

lemma body_result_fields [simp]:
  "temperature (body_result cfg n r it inbox s) =
     temperature (interior_task cfg (boundary_result cfg n r inbox s))"
  "temperature_last (body_result cfg n r it inbox s) =
     temperature_last (delta_pass cfg (interior_task cfg (boundary_result cfg n r inbox s)))"
  "dt (body_result cfg n r it inbox s) =
     dt (delta_pass cfg (interior_task cfg (boundary_result cfg n r inbox s)))"
  "requests (body_result cfg n r it inbox s) = launched_requests cfg n r"
  "outbox (body_result cfg n r it inbox s) = outbox (boundary_result cfg n r inbox s)"
  "interior_events (body_result cfg n r it inbox s) =
     interior_events (interior_task cfg (boundary_result cfg n r inbox s))"
  by (simp_all add: body_result_def Let_def)

lemma sequence_map_Inr:
  "(\<And>x. x \<in> set xs \<Longrightarrow> f x = Inr (g x)) \<Longrightarrow> sequence (map f xs) = Inr (map g xs)"
  by (induction xs) simp_all

lemma lockstep_eq:
  assumes "ROWS cfg \<noteq> 0" and "PRINT_FREQUENCY cfg \<noteq> 0"
    and "\<And>r h. r < length rs \<Longrightarrow> wait_returns (inbox_of rs (int r)) (requests (rs ! r) h)"
  shows "lockstep cfg it rs =
           Inr (allreduce_max (map dt (lockstep_result cfg it rs)), lockstep_result cfg it rs)"
proof -
  have "sequence (map (\<lambda>r. loop_body cfg (int (length rs)) (int r) it (inbox_of rs (int r)) (rs ! r))
                   [0 ..< length rs]) = Inr (lockstep_result cfg it rs)"
    unfolding lockstep_result_def
    by (rule sequence_map_Inr) (simp add: loop_body_eq assms)
  then show ?thesis by (simp add: lockstep_def)
qed

lemma length_lockstep_result [simp]: "length (lockstep_result cfg it rs) = length rs"
  by (simp add: lockstep_result_def)

lemma nth_lockstep_result:
  "r < length rs \<Longrightarrow>
   lockstep_result cfg it rs ! r =
     body_result cfg (int (length rs)) (int r) it (inbox_of rs (int r)) (rs ! r)"
  by (simp add: lockstep_result_def)

lemma inbox_of_pending_top:
  assumes "exchange_pending cfg rs" and "0 < r" and "r < length rs"
  shows "inbox_of rs (int r) (int r - 1) 0 = Some (load_row cfg (temperature (rs ! (r - 1))) (ROWS cfg))"
proof -
  have "outbox (rs ! (r - 1)) =
          launched_messages cfg (int (length rs)) (int (r - 1)) (temperature (rs ! (r - 1)))"
    using assms by (simp add: exchange_pending_def)
  moreover have "nat (int r - 1) = r - 1" by simp
  moreover have "int (r - 1) + 1 = int r" using assms by simp
  ultimately show ?thesis
    using assms by (auto simp add: inbox_of_def launched_messages_def)
qed

lemma inbox_of_pending_bottom:
  assumes "exchange_pending cfg rs" and "r + 1 < length rs"
  shows "inbox_of rs (int r) (int r + 1) 1 = Some (load_row cfg (temperature (rs ! (r + 1))) 1)"
proof -
  have "outbox (rs ! (r + 1)) =
          launched_messages cfg (int (length rs)) (int (r + 1)) (temperature (rs ! (r + 1)))"
    using assms by (simp add: exchange_pending_def)
  moreover have "nat (int r + 1) = r + 1" by simp
  ultimately show ?thesis
    using assms by (auto simp add: inbox_of_def launched_messages_def)
qed

lemma waits_return_quiet:
  "quiet rs \<Longrightarrow> r < length rs \<Longrightarrow> wait_returns inbox (requests (rs ! r) h)"
  by (simp add: quiet_def)

lemma waits_return_pending:
  assumes "exchange_pending cfg rs" and "r < length rs"
  shows "wait_returns (inbox_of rs (int r)) (requests (rs ! r) h)"
proof -
  have rq: "requests (rs ! r) = launched_requests cfg (int (length rs)) (int r)"
    using assms by (simp add: exchange_pending_def)
  show ?thesis
  proof (cases h)
    case Top_Recv
    then show ?thesis
      using assms inbox_of_pending_top [OF assms(1), of r]
      by (simp add: rq launched_requests_def)
  next
    case Bottom_Recv
    then show ?thesis
      using assms inbox_of_pending_bottom [OF assms(1), of r]
      by (auto simp add: rq launched_requests_def)
  qed (simp_all add: rq launched_requests_def)
qed

subsection \<open>The exchange stays pending and the loop returns\<close>

lemma load_row_interior_task:
  "row = 1 \<or> row = ROWS cfg \<Longrightarrow>
   load_row cfg (temperature (interior_task cfg s)) row = load_row cfg (temperature s) row"
  by (auto simp add: load_row_def interior_task_temperature)

lemma launched_messages_interior_task:
  "launched_messages cfg n r (temperature (interior_task cfg s)) =
   launched_messages cfg n r (temperature s)"
  by (simp add: launched_messages_def load_row_interior_task)

lemma departed_launched:
  "outbox s = launched_messages cfg n r t \<Longrightarrow> requests s = launched_requests cfg n r \<Longrightarrow>
   departed (requests s Bottom_Recv) (departed (requests s Bottom_Send)
     (departed (requests s Top_Recv) (departed (requests s Top_Send) (outbox s)))) = []"
  by (simp add: launched_messages_def launched_requests_def)

lemma departed_quiet:
  "outbox s = [] \<Longrightarrow> requests s = (\<lambda>h. MPI_REQUEST_NULL) \<Longrightarrow>
   departed (requests s Bottom_Recv) (departed (requests s Bottom_Send)
     (departed (requests s Top_Recv) (departed (requests s Top_Send) (outbox s)))) = []"
  by simp

lemma exchange_pending_lockstep_result:
  assumes "quiet rs \<or> exchange_pending cfg rs"
  shows "exchange_pending cfg (lockstep_result cfg it rs)"
  unfolding exchange_pending_def
proof (intro allI impI conjI)
  fix r assume "r < length (lockstep_result cfg it rs)"
  then have r: "r < length rs" by simp
  show "requests (lockstep_result cfg it rs ! r) =
          launched_requests cfg (int (length (lockstep_result cfg it rs))) (int r)"
    using r by (simp add: nth_lockstep_result)
  have "departed (requests (rs ! r) Bottom_Recv) (departed (requests (rs ! r) Bottom_Send)
          (departed (requests (rs ! r) Top_Recv) (departed (requests (rs ! r) Top_Send)
             (outbox (rs ! r))))) = []"
    using assms r
    by (auto simp add: quiet_def exchange_pending_def intro: departed_launched departed_quiet)
  then show "outbox (lockstep_result cfg it rs ! r) =
          launched_messages cfg (int (length (lockstep_result cfg it rs))) (int r)
            (temperature (lockstep_result cfg it rs ! r))"
    using r by (simp add: nth_lockstep_result boundary_result_outbox launched_messages_interior_task)
qed

lemma lockstep_returns:
  assumes "ROWS cfg \<noteq> 0" and "PRINT_FREQUENCY cfg \<noteq> 0" and "quiet rs \<or> exchange_pending cfg rs"
  shows "lockstep cfg it rs =
           Inr (allreduce_max (map dt (lockstep_result cfg it rs)), lockstep_result cfg it rs)"
  using assms by (intro lockstep_eq) (auto intro: waits_return_quiet waits_return_pending)

lemma after_iterations_returns:
  assumes "ROWS cfg \<noteq> 0" and "PRINT_FREQUENCY cfg \<noteq> 0" and "quiet rs0"
  shows "\<exists>d rs. after_iterations cfg d0 rs0 k = Inr (d, rs) \<and> length rs = length rs0 \<and>
           (if k = 0 then d = d0 \<and> rs = rs0 else exchange_pending cfg rs)"
proof (induction k)
  case 0
  then show ?case by simp
next
  case (Suc k)
  then obtain d rs where k: "after_iterations cfg d0 rs0 k = Inr (d, rs)" "length rs = length rs0"
    and inv: "quiet rs \<or> exchange_pending cfg rs"
    using assms(3) by (auto split: if_splits)
  show ?case
    using k exchange_pending_lockstep_result [OF inv]
    by (simp add: lockstep_returns [OF assms(1,2) inv])
qed

lemma after_iterations_Suc:
  assumes "ROWS cfg \<noteq> 0" and "PRINT_FREQUENCY cfg \<noteq> 0" and "quiet rs0"
    and "after_iterations cfg d0 rs0 k = Inr (d, rs)"
  shows "after_iterations cfg d0 rs0 (Suc k) =
           Inr (allreduce_max (map dt (lockstep_result cfg (int k + 1) rs)),
                lockstep_result cfg (int k + 1) rs)"
    and "lockstep cfg (int k + 1) rs =
           Inr (allreduce_max (map dt (lockstep_result cfg (int k + 1) rs)),
                lockstep_result cfg (int k + 1) rs)"
    and "quiet rs \<or> exchange_pending cfg rs"
proof -
  from after_iterations_returns [OF assms(1-3), of d0 k] assms(3,4)
  show inv: "quiet rs \<or> exchange_pending cfg rs"
    by (auto split: if_splits)
  show "lockstep cfg (int k + 1) rs =
           Inr (allreduce_max (map dt (lockstep_result cfg (int k + 1) rs)),
                lockstep_result cfg (int k + 1) rs)"
    by (rule lockstep_returns [OF assms(1,2) inv])
  then show "after_iterations cfg d0 rs0 (Suc k) =
           Inr (allreduce_max (map dt (lockstep_result cfg (int k + 1) rs)),
                lockstep_result cfg (int k + 1) rs)"
    using assms(4) by simp
qed

lemma relax_loop_runs:
  assumes "ROWS cfg \<noteq> 0" and "PRINT_FREQUENCY cfg \<noteq> 0" and "quiet rs0"
    and cap: "MAX_NUMBER_OF_ITERATIONS cfg < INT_MAX"
  shows "after_iterations cfg d0 rs0 k = Inr (d, rs) \<Longrightarrow>
         \<exists>n d' rs'. relax_loop cfg (int k) d rs = Inr (int n, d', rs') \<and> k \<le> n \<and>
           after_iterations cfg d0 rs0 n = Inr (d', rs') \<and>
           \<not> (d' > MAX_TEMP_ERROR cfg \<and> int n \<le> MAX_NUMBER_OF_ITERATIONS cfg) \<and>
           (\<forall>m. k \<le> m \<and> m < n \<longrightarrow>
              (\<exists>dm rsm. after_iterations cfg d0 rs0 m = Inr (dm, rsm) \<and>
                 dm > MAX_TEMP_ERROR cfg \<and> int m \<le> MAX_NUMBER_OF_ITERATIONS cfg))"
proof (induction "nat (MAX_NUMBER_OF_ITERATIONS cfg + 1 - int k)" arbitrary: k d rs)
  case 0
  then have "\<not> int k \<le> MAX_NUMBER_OF_ITERATIONS cfg" by simp
  then have "relax_loop cfg (int k) d rs = Inr (int k, d, rs)"
    by (subst relax_loop.simps) simp
  with 0 show ?case by auto
next
  case (Suc x)
  show ?case
  proof (cases "d > MAX_TEMP_ERROR cfg \<and> int k \<le> MAX_NUMBER_OF_ITERATIONS cfg")
    case False
    then have "relax_loop cfg (int k) d rs = Inr (int k, d, rs)"
      by (subst relax_loop.simps) auto
    with False Suc.prems show ?thesis by auto
  next
    case True
    let ?rs = "lockstep_result cfg (int k + 1) rs"
    let ?d = "allreduce_max (map dt ?rs)"
    note step = after_iterations_Suc [OF assms(1-3) Suc.prems]
    have "x = nat (MAX_NUMBER_OF_ITERATIONS cfg + 1 - int (Suc k))"
      using Suc.hyps(2) by simp
    from Suc.hyps(1) [OF this step(1)]
    obtain n d' rs' where n: "relax_loop cfg (int (Suc k)) ?d ?rs = Inr (int n, d', rs')"
      "Suc k \<le> n" "after_iterations cfg d0 rs0 n = Inr (d', rs')"
      "\<not> (d' > MAX_TEMP_ERROR cfg \<and> int n \<le> MAX_NUMBER_OF_ITERATIONS cfg)"
      "\<forall>m. Suc k \<le> m \<and> m < n \<longrightarrow>
              (\<exists>dm rsm. after_iterations cfg d0 rs0 m = Inr (dm, rsm) \<and>
                 dm > MAX_TEMP_ERROR cfg \<and> int m \<le> MAX_NUMBER_OF_ITERATIONS cfg)"
      by blast
    have "\<not> INT_MAX \<le> int k" using True cap by simp
    then have "relax_loop cfg (int k) d rs = relax_loop cfg (int k + 1) ?d ?rs"
      using True by (subst relax_loop.simps) (simp add: step(2))
    then have "relax_loop cfg (int k) d rs = Inr (int n, d', rs')"
      using n(1) by (simp add: add.commute)
    moreover have "\<exists>dm rsm. after_iterations cfg d0 rs0 m = Inr (dm, rsm) \<and>
                 dm > MAX_TEMP_ERROR cfg \<and> int m \<le> MAX_NUMBER_OF_ITERATIONS cfg"
      if "k \<le> m" "m < n" for m
    proof (cases "m = k")
      case True
      then show ?thesis using Suc.prems \<open>d > MAX_TEMP_ERROR cfg \<and> int k \<le> MAX_NUMBER_OF_ITERATIONS cfg\<close> by simp
    next
      case False
      then show ?thesis using that n(5) by simp
    qed
    ultimately show ?thesis using n(2,3,4) by (intro exI [of _ n] exI [of _ d'] exI [of _ rs']) auto
  qed
qed

subsection \<open>Order of the events of one execution\<close>

lemma all_before_iff:
  "all_before P Q es \<longleftrightarrow>
     (\<forall>i j. i < length es \<and> j < length es \<and> P (es ! i) \<and> Q (es ! j) \<longrightarrow> i < j)"
proof (induction es)
  case Nil
  then show ?case by simp
next
  case (Cons e es)
  show ?case
  proof (cases "Q e")
    case True
    have "(\<not> P e \<and> list_all (\<lambda>x. \<not> P x) es) \<longleftrightarrow> (\<forall>i < length (e # es). \<not> P ((e # es) ! i))"
      by (auto simp add: list_all_length nth_Cons split: nat.splits)
    also have "\<dots> \<longleftrightarrow> (\<forall>i j. i < length (e # es) \<and> j < length (e # es) \<and> P ((e # es) ! i) \<and>
                          Q ((e # es) ! j) \<longrightarrow> i < j)"
    proof
      assume "\<forall>i < length (e # es). \<not> P ((e # es) ! i)"
      then show "\<forall>i j. i < length (e # es) \<and> j < length (e # es) \<and> P ((e # es) ! i) \<and>
                          Q ((e # es) ! j) \<longrightarrow> i < j" by blast
    next
      assume a: "\<forall>i j. i < length (e # es) \<and> j < length (e # es) \<and> P ((e # es) ! i) \<and>
                          Q ((e # es) ! j) \<longrightarrow> i < j"
      show "\<forall>i < length (e # es). \<not> P ((e # es) ! i)"
      proof (intro allI impI notI)
        fix i assume "i < length (e # es)" "P ((e # es) ! i)"
        with a [rule_format, of i 0] True show False by simp
      qed
    qed
    finally show ?thesis using True by simp
  next
    case False
    have "(\<forall>i j. i < length (e # es) \<and> j < length (e # es) \<and> P ((e # es) ! i) \<and>
                          Q ((e # es) ! j) \<longrightarrow> i < j) \<longleftrightarrow>
          (\<forall>i j. i < length es \<and> j < length es \<and> P (es ! i) \<and> Q (es ! j) \<longrightarrow> i < j)"
    proof
      assume a: "\<forall>i j. i < length (e # es) \<and> j < length (e # es) \<and> P ((e # es) ! i) \<and>
                          Q ((e # es) ! j) \<longrightarrow> i < j"
      show "\<forall>i j. i < length es \<and> j < length es \<and> P (es ! i) \<and> Q (es ! j) \<longrightarrow> i < j"
      proof (intro allI impI)
        fix i j assume "i < length es \<and> j < length es \<and> P (es ! i) \<and> Q (es ! j)"
        with a [rule_format, of "Suc i" "Suc j"] show "i < j" by simp
      qed
    next
      assume a: "\<forall>i j. i < length es \<and> j < length es \<and> P (es ! i) \<and> Q (es ! j) \<longrightarrow> i < j"
      show "\<forall>i j. i < length (e # es) \<and> j < length (e # es) \<and> P ((e # es) ! i) \<and>
                          Q ((e # es) ! j) \<longrightarrow> i < j"
      proof (intro allI impI)
        fix i j assume b: "i < length (e # es) \<and> j < length (e # es) \<and> P ((e # es) ! i) \<and>
                          Q ((e # es) ! j)"
        show "i < j"
        proof (cases j)
          case 0
          with b False show ?thesis by simp
        next
          case (Suc j')
          show ?thesis
          proof (cases i)
            case 0
            with Suc show ?thesis by simp
          next
            case (Suc i')
            with b \<open>j = Suc j'\<close> a [rule_format, of i' j'] show ?thesis by simp
          qed
        qed
      qed
    qed
    with Cons False show ?thesis by simp
  qed
qed

lemma all_before_append:
  "all_before P Q (xs @ ys) \<longleftrightarrow>
     (if list_ex Q xs then all_before P Q xs \<and> list_all (\<lambda>x. \<not> P x) ys else all_before P Q ys)"
  by (induction xs) (auto simp add: list_all_iff list_ex_iff)

lemma all_before_no_P: "list_all (\<lambda>x. \<not> P x) es \<Longrightarrow> all_before P Q es"
  by (induction es) auto

lemma all_before_no_Q: "list_all (\<lambda>x. \<not> Q x) es \<Longrightarrow> all_before P Q es"
  by (induction es) auto

lemma body_result_events:
  "events (body_result cfg n r it inbox s) =
     events s @ [Wait Top_Send (requests s Top_Send), Wait Top_Recv (requests s Top_Recv)] @
     map (Write 1) [1 ..< Suc (COLUMNS cfg)] @
     [Wait Bottom_Send (requests s Bottom_Send), Wait Bottom_Recv (requests s Bottom_Recv)] @
     map (Write (ROWS cfg)) [1 ..< Suc (COLUMNS cfg)] @
     launch_events cfg n r @
     Omp_Barrier #
     map (\<lambda>(i, j). Delta i j) (List.product [1 ..< Suc (ROWS cfg)] [1 ..< Suc (COLUMNS cfg)]) @
     (if it smod PRINT_FREQUENCY cfg = 0 \<and> r = n - 1 then [Track_Progress it] else [])"
  by (simp add: body_result_def Let_def boundary_result_events del: upt_Suc)

lemma all_before_split:
  "list_all (\<lambda>x. \<not> Q x) xs \<Longrightarrow> list_all (\<lambda>x. \<not> P x) ys \<Longrightarrow> all_before P Q (xs @ ys)"
  by (induction xs) (auto simp add: all_before_no_P)

lemma launch_events_kinds [simp]:
  "list_all is_launch (launch_events cfg n r)"
  "list_all (\<lambda>e. \<not> is_write e) (launch_events cfg n r)"
  "list_all (\<lambda>e. \<not> is_wait e) (launch_events cfg n r)"
  "list_all (\<lambda>e. \<not> is_barrier e) (launch_events cfg n r)"
  "list_all (\<lambda>e. \<not> is_delta e) (launch_events cfg n r)"
  by (simp_all add: launch_events_def)

text \<open>
  Claim C5, as amended. In every execution of the loop body, the launch of the next halo
  exchange (the calls of \<^verbatim>\<open>MPI_Irecv\<close> and \<^verbatim>\<open>MPI_Isend\<close>) comes after the four waits and the
  writes of rows 1 and \<^verbatim>\<open>ROWS\<close> of that execution, and before the barrier and every cell of
  the delta pass with its copy into \<^verbatim>\<open>temperature_last\<close>.
\<close>

theorem launch_precedes_delta_pass:
  assumes "loop_body cfg n r it inbox s = Inr s'"
  shows "\<exists>new. events s' = events s @ new \<and>
           all_before is_wait is_launch new \<and> all_before is_write is_launch new \<and>
           all_before is_launch is_barrier new \<and> all_before is_launch is_delta new \<and>
           all_before is_barrier is_delta new"
proof -
  define A where "A =
     [Wait Top_Send (requests s Top_Send), Wait Top_Recv (requests s Top_Recv)] @
     map (Write 1) [1 ..< Suc (COLUMNS cfg)] @
     [Wait Bottom_Send (requests s Bottom_Send), Wait Bottom_Recv (requests s Bottom_Recv)] @
     map (Write (ROWS cfg)) [1 ..< Suc (COLUMNS cfg)]"
  define D where "D =
     map (\<lambda>(i, j). Delta i j) (List.product [1 ..< Suc (ROWS cfg)] [1 ..< Suc (COLUMNS cfg)]) @
     (if it smod PRINT_FREQUENCY cfg = 0 \<and> r = n - 1 then [Track_Progress it] else [])"
  let ?L = "launch_events cfg n r"
  from assms have "s' = body_result cfg n r it inbox s"
    by (simp add: loop_body_eq split: if_splits)
  then have new: "events s' = events s @ (A @ ?L @ Omp_Barrier # D)"
    by (simp add: body_result_events A_def D_def del: upt_Suc)
  have A: "list_all (\<lambda>e. \<not> is_launch e) A" "list_all (\<lambda>e. \<not> is_barrier e) A"
    "list_all (\<lambda>e. \<not> is_delta e) A"
    by (auto simp add: A_def list_all_iff)
  have D: "list_all (\<lambda>e. \<not> is_launch e) D" "list_all (\<lambda>e. \<not> is_barrier e) D"
    "list_all (\<lambda>e. \<not> is_wait e) D" "list_all (\<lambda>e. \<not> is_write e) D"
    by (auto simp add: D_def list_all_iff)
  have "all_before is_wait is_launch (A @ (?L @ Omp_Barrier # D))"
    using A D by (intro all_before_split) simp_all
  moreover have "all_before is_write is_launch (A @ (?L @ Omp_Barrier # D))"
    using A D by (intro all_before_split) simp_all
  moreover have "all_before is_launch is_barrier ((A @ ?L) @ (Omp_Barrier # D))"
    using A D by (intro all_before_split) simp_all
  moreover have "all_before is_launch is_delta ((A @ ?L) @ (Omp_Barrier # D))"
    using A D by (intro all_before_split) simp_all
  moreover have "all_before is_barrier is_delta ((A @ ?L @ [Omp_Barrier]) @ D)"
    using A D by (intro all_before_split) simp_all
  ultimately show ?thesis
    using new by (intro exI [of _ "A @ ?L @ Omp_Barrier # D"]) simp
qed

lemma loop_body_example:
  "loop_body example_config 2 0 1 (\<lambda>source tag. None) example_state =
     Inr (body_result example_config 2 0 1 (\<lambda>source tag. None) example_state)"
  by (simp add: loop_body_eq example_config_def example_state_def initial_state_def)

theorem launch_precedes_delta_pass_witness:
  "\<exists>new. events (body_result example_config 2 0 1 (\<lambda>source tag. None) example_state) =
           events example_state @ new \<and>
         all_before is_wait is_launch new \<and> all_before is_write is_launch new \<and>
         all_before is_launch is_barrier new \<and> all_before is_launch is_delta new \<and>
         all_before is_barrier is_delta new"
  using launch_precedes_delta_pass [OF loop_body_example] .

theorem launch_after_delta_pass_counterexample:
  "\<not> all_before is_delta is_launch
       (events_of (loop_body example_config 2 0 1 (\<lambda>source tag. None) example_state))"
  by (simp add: loop_body_eq body_result_events launch_events_def example_config_def
        example_state_def initial_state_def numeral_2_eq_2)

lemma example_events:
  "events_of (loop_body example_config 2 0 1 (\<lambda>source tag. None) example_state) =
     [Wait Top_Send MPI_REQUEST_NULL, Wait Top_Recv MPI_REQUEST_NULL, Write 1 1,
      Wait Bottom_Send MPI_REQUEST_NULL, Wait Bottom_Recv MPI_REQUEST_NULL, Write 2 1,
      Isend Bottom_Send 2 1 0, Irecv Bottom_Recv 3 1 1, Omp_Barrier, Delta 1 1, Delta 2 1]"
  by (simp add: loop_body_eq body_result_events launch_events_def example_config_def
        example_state_def initial_state_def numeral_2_eq_2)

subsection \<open>Termination\<close>

lemma quiet_initial_ranks [simp]: "quiet (initial_ranks n init)"
  by (simp add: quiet_def initial_ranks_def initial_state_def)

lemma length_initial_ranks [simp]: "length (initial_ranks n init) = n"
  by (simp add: initial_ranks_def)

text \<open>
  Claim C3. With at least one row per process, a print frequency other than 0 and a cap
  from -1 to \<^verbatim>\<open>INT_MAX - 1\<close>, the loop returns, whatever the number of processes and the
  initial grids. It returns after \<open>n\<close> executions of the body with the counter \<open>n\<close>, where
  \<open>n\<close> is at most the cap plus 1; on return \<^verbatim>\<open>dt_global\<close> is at most the threshold or the
  counter is above the cap, and before each of the \<open>n\<close> executions the opposite held.
\<close>

theorem relax_loop_terminates:
  assumes "1 \<le> ROWS cfg" and "PRINT_FREQUENCY cfg \<noteq> 0"
    and "- 1 \<le> MAX_NUMBER_OF_ITERATIONS cfg" and "MAX_NUMBER_OF_ITERATIONS cfg < INT_MAX"
  shows "\<exists>n d rs.
           relax_loop cfg 0 dt_global_init (initial_ranks comm_size init) = Inr (int n, d, rs) \<and>
           after_iterations cfg dt_global_init (initial_ranks comm_size init) n = Inr (d, rs) \<and>
           int n \<le> MAX_NUMBER_OF_ITERATIONS cfg + 1 \<and>
           (d \<le> MAX_TEMP_ERROR cfg \<or> MAX_NUMBER_OF_ITERATIONS cfg < int n) \<and>
           (\<forall>m < n. \<exists>dm rsm.
              after_iterations cfg dt_global_init (initial_ranks comm_size init) m = Inr (dm, rsm) \<and>
              MAX_TEMP_ERROR cfg < dm \<and> int m \<le> MAX_NUMBER_OF_ITERATIONS cfg)"
proof -
  let ?rs0 = "initial_ranks comm_size init"
  have rows: "ROWS cfg \<noteq> 0" using assms(1) by simp
  have "after_iterations cfg dt_global_init ?rs0 0 = Inr (dt_global_init, ?rs0)" by simp
  from relax_loop_runs [OF rows assms(2) quiet_initial_ranks assms(4) this]
  obtain n d rs where n:
    "relax_loop cfg 0 dt_global_init ?rs0 = Inr (int n, d, rs)"
    "after_iterations cfg dt_global_init ?rs0 n = Inr (d, rs)"
    "\<not> (d > MAX_TEMP_ERROR cfg \<and> int n \<le> MAX_NUMBER_OF_ITERATIONS cfg)"
    "\<forall>m. 0 \<le> m \<and> m < n \<longrightarrow>
       (\<exists>dm rsm. after_iterations cfg dt_global_init ?rs0 m = Inr (dm, rsm) \<and>
          dm > MAX_TEMP_ERROR cfg \<and> int m \<le> MAX_NUMBER_OF_ITERATIONS cfg)"
    by auto
  have "int n \<le> MAX_NUMBER_OF_ITERATIONS cfg + 1"
  proof (cases n)
    case 0
    then show ?thesis using assms(3) by simp
  next
    case (Suc m)
    with n(4) [rule_format, of m] show ?thesis by auto
  qed
  with n show ?thesis
    by (intro exI [of _ n] exI [of _ d] exI [of _ rs]) auto
qed

subsection \<open>Startup\<close>

lemma bind_result_Inl_iff:
  "bind_result m f = Inl e \<longleftrightarrow> m = Inl e \<or> (\<exists>x. m = Inr x \<and> f x = Inl e)"
  by (cases m) simp_all

lemma sequence_Inl:
  "sequence xs = Inl e \<Longrightarrow> Inl e \<in> set xs"
proof (induction xs)
  case Nil
  then show ?case by simp
next
  case (Cons x xs)
  then show ?case by (cases x) (auto simp add: bind_result_Inl_iff)
qed

lemma loop_body_not_Aborted: "loop_body cfg n r it inbox s \<noteq> Inl (Aborted msg args status)"
  by (simp add: loop_body_eq)

lemma lockstep_not_Aborted: "lockstep cfg it rs \<noteq> Inl (Aborted msg args status)"
proof
  assume "lockstep cfg it rs = Inl (Aborted msg args status)"
  then have "sequence (map (\<lambda>r. loop_body cfg (int (length rs)) (int r) it (inbox_of rs (int r)) (rs ! r))
                        [0 ..< length rs]) = Inl (Aborted msg args status)"
    by (simp add: lockstep_def bind_result_Inl_iff)
  from sequence_Inl [OF this] show False
    by (auto simp add: loop_body_not_Aborted [THEN not_sym])
qed

lemma relax_loop_not_Aborted: "relax_loop cfg it d rs \<noteq> Inl (Aborted msg args status)"
proof (induction cfg it d rs rule: relax_loop.induct)
  case (1 cfg iteration dt_global rs)
  show ?case
  proof (cases "dt_global > MAX_TEMP_ERROR cfg \<and> iteration \<le> MAX_NUMBER_OF_ITERATIONS cfg")
    case False
    then show ?thesis by (subst relax_loop.simps) auto
  next
    case True
    show ?thesis
    proof (cases "INT_MAX \<le> iteration")
      case True
      with \<open>dt_global > MAX_TEMP_ERROR cfg \<and> iteration \<le> MAX_NUMBER_OF_ITERATIONS cfg\<close>
      show ?thesis by (subst relax_loop.simps) simp
    next
      case False
      with True 1 show ?thesis
        by (subst relax_loop.simps)
           (auto simp add: bind_result_Inl_iff lockstep_not_Aborted)
    qed
  qed
qed

lemma final_waits_not_Aborted: "final_waits inbox s \<noteq> Inl (Aborted msg args status)"
  by (simp add: final_waits_def MPI_Wait_eq bind_result_Inl_iff)

lemma startup_Inr_iff:
  "startup cfg provided comm_size = Inr u \<longleftrightarrow>
     \<not> (VERSION_RUN cfg = ''hybrid_small'' \<and> comm_size \<noteq> 2 \<or>
        VERSION_RUN cfg = ''hybrid_big'' \<and> comm_size \<noteq> 8 \<or>
        provided < MPI_THREAD_MULTIPLE)"
  by (auto simp add: startup_def)

lemma main_Aborted_iff:
  "main cfg provided n init = Inl (Aborted msg args status) \<longleftrightarrow>
     startup cfg provided (int n) = Inl (Aborted msg args status)"
proof -
  have "sequence (map (\<lambda>r. final_waits (inbox_of rs (int r)) (rs ! r)) [0 ..< length rs]) \<noteq>
          Inl (Aborted msg args status)" for rs
    using sequence_Inl [of "map (\<lambda>r. final_waits (inbox_of rs (int r)) (rs ! r)) [0 ..< length rs]"
             "Aborted msg args status"]
    by (auto simp add: final_waits_not_Aborted [THEN not_sym])
  then show ?thesis
    by (auto simp add: main_def bind_result_Inl_iff relax_loop_not_Aborted)
qed

text \<open>
  Claim C8. A run ends in \<^verbatim>\<open>MPI_Abort\<close> exactly when the version is \<^verbatim>\<open>hybrid_small\<close> and the number
  of processes is not 2, or the version is \<^verbatim>\<open>hybrid_big\<close> and the number is not 8, or the
  thread level provided is below \<^verbatim>\<open>MPI_THREAD_MULTIPLE\<close>. The abort is the result of the startup
  checks, before the loop and whatever the grids; its status \<^verbatim>\<open>EXIT_FAILURE\<close> is not 0; the
  diagnostic printed before it is the one of the first check that fails: the thread level
  first, then the number of processes, which the message shows.
\<close>

theorem startup_abort:
  "((\<exists>msg args status. main cfg provided n init = Inl (Aborted msg args status)) \<longleftrightarrow>
      (VERSION_RUN cfg = ''hybrid_small'' \<and> n \<noteq> 2 \<or>
       VERSION_RUN cfg = ''hybrid_big'' \<and> n \<noteq> 8 \<or>
       provided < MPI_THREAD_MULTIPLE)) \<and>
   (\<forall>msg args status. main cfg provided n init = Inl (Aborted msg args status) \<longrightarrow>
      startup cfg provided (int n) = Inl (Aborted msg args status) \<and>
      status = EXIT_FAILURE \<and> status \<noteq> 0 \<and>
      (if provided < MPI_THREAD_MULTIPLE
       then msg = ''The threading support level is lesser than that demanded.'' @ [CHR 0x0A] \<and>
            args = []
       else if VERSION_RUN cfg = ''hybrid_small''
       then msg = ''The small version is meant to be run with 2 MPI processes, not %d.'' @ [CHR 0x0A] \<and>
            args = [int n] \<and> n \<noteq> 2
       else msg = ''The big version is meant to be run with 8 MPI processes, not %d.'' @ [CHR 0x0A] \<and>
            args = [int n] \<and> VERSION_RUN cfg = ''hybrid_big'' \<and> n \<noteq> 8))"
  unfolding main_Aborted_iff
  by (auto simp add: startup_def EXIT_FAILURE_def)

theorem startup_abort_witness:
  "main example_config 3 3 (\<lambda>r. (\<lambda>i j. 0, \<lambda>i j. 0)) =
     Inl (Aborted (''The small version is meant to be run with 2 MPI processes, not %d.'' @ [CHR 0x0A])
            [3] EXIT_FAILURE) \<and>
   main example_config 2 2 (\<lambda>r. (\<lambda>i j. 0, \<lambda>i j. 0)) =
     Inl (Aborted (''The threading support level is lesser than that demanded.'' @ [CHR 0x0A])
            [] EXIT_FAILURE)"
proof -
  have a: "VERSION_RUN example_config = ''hybrid_small'' \<and> (3::nat) \<noteq> 2 \<or>
           VERSION_RUN example_config = ''hybrid_big'' \<and> (3::nat) \<noteq> 8 \<or>
           (3::int) < MPI_THREAD_MULTIPLE"
    by (simp add: example_config_def)
  have b: "VERSION_RUN example_config = ''hybrid_small'' \<and> (2::nat) \<noteq> 2 \<or>
           VERSION_RUN example_config = ''hybrid_big'' \<and> (2::nat) \<noteq> 8 \<or>
           (2::int) < MPI_THREAD_MULTIPLE"
    by (simp add: MPI_THREAD_MULTIPLE_def)
  from startup_abort [of example_config 3 3 "\<lambda>r. (\<lambda>i j. 0, \<lambda>i j. 0)"] a
  obtain msg args status
    where m: "main example_config 3 3 (\<lambda>r. (\<lambda>i j. 0, \<lambda>i j. 0)) = Inl (Aborted msg args status)"
    by blast
  with startup_abort [of example_config 3 3 "\<lambda>r. (\<lambda>i j. 0, \<lambda>i j. 0)"]
  have "status = EXIT_FAILURE \<and>
        msg = ''The small version is meant to be run with 2 MPI processes, not %d.'' @ [CHR 0x0A] \<and>
        args = [3]"
    by (simp add: example_config_def MPI_THREAD_MULTIPLE_def)
  with m have first: "main example_config 3 3 (\<lambda>r. (\<lambda>i j. 0, \<lambda>i j. 0)) =
     Inl (Aborted (''The small version is meant to be run with 2 MPI processes, not %d.'' @ [CHR 0x0A])
            [3] EXIT_FAILURE)"
    by simp
  from startup_abort [of example_config 2 2 "\<lambda>r. (\<lambda>i j. 0, \<lambda>i j. 0)"] b
  obtain msg' args' status'
    where m': "main example_config 2 2 (\<lambda>r. (\<lambda>i j. 0, \<lambda>i j. 0)) = Inl (Aborted msg' args' status')"
    by blast
  with startup_abort [of example_config 2 2 "\<lambda>r. (\<lambda>i j. 0, \<lambda>i j. 0)"]
  have "status' = EXIT_FAILURE \<and>
        msg' = ''The threading support level is lesser than that demanded.'' @ [CHR 0x0A] \<and>
        args' = []"
    by (simp add: example_config_def MPI_THREAD_MULTIPLE_def)
  with m' have "main example_config 2 2 (\<lambda>r. (\<lambda>i j. 0, \<lambda>i j. 0)) =
     Inl (Aborted (''The threading support level is lesser than that demanded.'' @ [CHR 0x0A])
            [] EXIT_FAILURE)"
    by simp
  with first show ?thesis by simp
qed

subsection \<open>Halo rows and the stencil\<close>

lemma store_row_load_row:
  "store_row g row (load_row cfg t row') i j =
     (if i = row \<and> 1 \<le> j \<and> j \<le> COLUMNS cfg then t row' j else g i j)"
proof (cases "i = row \<and> 1 \<le> j \<and> j \<le> COLUMNS cfg")
  case True
  then have "j - 1 < length [1 ..< Suc (COLUMNS cfg)]" by auto
  then have "map (t row') [1 ..< Suc (COLUMNS cfg)] ! (j - 1) = t row' ([1 ..< Suc (COLUMNS cfg)] ! (j - 1))"
    by (rule nth_map)
  also have "[1 ..< Suc (COLUMNS cfg)] ! (j - 1) = j"
    using True by (simp add: nth_upt del: upt_Suc)
  finally show ?thesis
    using True by (simp add: store_row_def load_row_def del: upt_Suc)
next
  case False
  then show ?thesis by (auto simp add: store_row_def load_row_def simp del: upt_Suc)
qed

lemma halos_quiet:
  "quiet rs \<Longrightarrow> r < length rs \<Longrightarrow>
   temperature_last (boundary_result cfg n r' inbox (rs ! r)) = temperature_last (rs ! r)"
  by (simp add: boundary_result_temperature_last quiet_def)

lemma top_halo_pending:
  assumes "exchange_pending cfg rs" and "r < length rs"
  shows "received (inbox_of rs (int r)) (requests (rs ! r) Top_Recv)
           (received (inbox_of rs (int r)) (requests (rs ! r) Top_Send) g) i j =
         (if 0 < r \<and> i = 0 \<and> 1 \<le> j \<and> j \<le> COLUMNS cfg
          then temperature (rs ! (r - 1)) (ROWS cfg) j else g i j)"
proof -
  have rq: "requests (rs ! r) = launched_requests cfg (int (length rs)) (int r)"
    using assms by (simp add: exchange_pending_def)
  show ?thesis
  proof (cases "r = 0")
    case True
    then show ?thesis using rq by (simp add: launched_requests_def)
  next
    case False
    then have "0 < r" by simp
    from inbox_of_pending_top [OF assms(1) this assms(2)] False
    show ?thesis by (simp add: rq launched_requests_def store_row_load_row)
  qed
qed

lemma bottom_halo_pending:
  assumes "exchange_pending cfg rs" and "r < length rs"
  shows "received (inbox_of rs (int r)) (requests (rs ! r) Bottom_Recv)
           (received (inbox_of rs (int r)) (requests (rs ! r) Bottom_Send) g) i j =
         (if r + 1 < length rs \<and> i = ROWS cfg + 1 \<and> 1 \<le> j \<and> j \<le> COLUMNS cfg
          then temperature (rs ! (r + 1)) 1 j else g i j)"
proof -
  have rq: "requests (rs ! r) = launched_requests cfg (int (length rs)) (int r)"
    using assms by (simp add: exchange_pending_def)
  show ?thesis
  proof (cases "r + 1 < length rs")
    case False
    then have "int r = int (length rs) - 1" using assms(2) by simp
    then show ?thesis using False by (simp add: rq launched_requests_def)
  next
    case True
    then have "int r \<noteq> int (length rs) - 1" by simp
    with inbox_of_pending_bottom [OF assms(1) True] True
    show ?thesis by (simp add: rq launched_requests_def store_row_load_row)
  qed
qed

lemma halos_pending:
  assumes "exchange_pending cfg rs" and "r < length rs"
  shows "temperature_last (boundary_result cfg n r' (inbox_of rs (int r)) (rs ! r)) i j =
         (if r + 1 < length rs \<and> i = ROWS cfg + 1 \<and> 1 \<le> j \<and> j \<le> COLUMNS cfg
          then temperature (rs ! (r + 1)) 1 j
          else if 0 < r \<and> i = 0 \<and> 1 \<le> j \<and> j \<le> COLUMNS cfg
          then temperature (rs ! (r - 1)) (ROWS cfg) j
          else temperature_last (rs ! r) i j)"
  by (simp only: boundary_result_temperature_last bottom_halo_pending [OF assms]
        top_halo_pending [OF assms])

lemma stencil_cong:
  "g (i + 1) j = g' (i + 1) j \<Longrightarrow> g (i - 1) j = g' (i - 1) j \<Longrightarrow> g i (j + 1) = g' i (j + 1) \<Longrightarrow>
   g i (j - 1) = g' i (j - 1) \<Longrightarrow> stencil g i j = stencil g' i j"
  by (simp add: stencil_def)

lemma first_row_stencil:
  assumes "quiet rs \<or> exchange_pending cfg rs" and "r < length rs" and "2 \<le> ROWS cfg"
  shows "stencil (received (inbox_of rs (int r)) (requests (rs ! r) Top_Recv)
                   (received (inbox_of rs (int r)) (requests (rs ! r) Top_Send)
                      (temperature_last (rs ! r)))) 1 j =
         stencil (temperature_last (boundary_result cfg n r' (inbox_of rs (int r)) (rs ! r))) 1 j"
  using assms(1)
proof
  assume "quiet rs"
  then show ?thesis
    using assms(2) by (simp add: boundary_result_temperature_last quiet_def)
next
  assume p: "exchange_pending cfg rs"
  show ?thesis
    using assms(3)
    by (intro stencil_cong)
       (simp_all add: boundary_result_temperature_last bottom_halo_pending [OF p assms(2)])
qed

lemma compute_stencil:
  assumes "quiet rs \<or> exchange_pending cfg rs" and "r < length rs"
    and "1 \<le> i" "i \<le> ROWS cfg" "1 \<le> j" "j \<le> COLUMNS cfg"
  shows "temperature (interior_task cfg (boundary_result cfg n r' (inbox_of rs (int r)) (rs ! r))) i j =
         stencil (temperature_last (boundary_result cfg n r' (inbox_of rs (int r)) (rs ! r))) i j"
proof (cases "i = ROWS cfg")
  case True
  then show ?thesis
    using assms by (simp add: interior_task_temperature boundary_result_temperature)
next
  case False
  show ?thesis
  proof (cases "i = 1")
    case True
    with False assms have "2 \<le> ROWS cfg" by simp
    from first_row_stencil [OF assms(1,2) this] True False assms
    show ?thesis by (simp add: interior_task_temperature boundary_result_temperature)
  next
    case False
    with \<open>i \<noteq> ROWS cfg\<close> assms show ?thesis
      by (simp add: interior_task_temperature)
  qed
qed

lemma compute_phase_eq:
  "compute_phase cfg n r inbox s =
     (if ROWS cfg = 0 then Inl Out_Of_Bounds
      else if \<forall>h. wait_returns inbox (requests s h)
           then Inr (interior_task cfg (boundary_result cfg n r inbox s))
           else Inl Blocked)"
  by (simp add: compute_phase_def boundary_task_eq)

lemma previous_rows_kept:
  assumes "quiet rs \<or> exchange_pending cfg rs" and "r < length rs"
    and "(1 \<le> i \<and> i \<le> ROWS cfg) \<or> \<not> (1 \<le> j \<and> j \<le> COLUMNS cfg)"
  shows "temperature_last (boundary_result cfg n r' (inbox_of rs (int r)) (rs ! r)) i j =
         temperature_last (rs ! r) i j"
  using assms(1)
proof
  assume "quiet rs"
  then show ?thesis using assms(2) by (simp add: halos_quiet)
next
  assume "exchange_pending cfg rs"
  from halos_pending [OF this assms(2)] assms(3) show ?thesis by auto
qed

text \<open>
  Claim C1. Take the states \<open>rs\<close> of the processes after any number \<open>k\<close> of executions of the
  loop body. In the next execution, on every process, the parallel region reaches its
  barrier in a state \<open>s1\<close> in which every cell of \<^verbatim>\<open>temperature\<close> with \<open>1 \<le> i \<le> ROWS\<close> and
  \<open>1 \<le> j \<le> COLUMNS\<close> is 0.25 times the sum of its four neighbours in \<^verbatim>\<open>temperature_last\<close>,
  halo rows included. \<^verbatim>\<open>temperature_last\<close> is there as the execution before left it on rows
  1 to \<^verbatim>\<open>ROWS\<close> and on the boundary columns, and \<^verbatim>\<open>temperature\<close> keeps these values to the end
  of the execution.
\<close>

theorem stencil_update:
  assumes "1 \<le> ROWS cfg" and "PRINT_FREQUENCY cfg \<noteq> 0"
  shows "\<exists>d rs d' rs'.
           after_iterations cfg dt_global_init (initial_ranks n init) k = Inr (d, rs) \<and>
           after_iterations cfg dt_global_init (initial_ranks n init) (Suc k) = Inr (d', rs') \<and>
           length rs = n \<and> length rs' = n \<and>
           (\<forall>r < n. \<exists>s1.
              compute_phase cfg (int n) (int r) (inbox_of rs (int r)) (rs ! r) = Inr s1 \<and>
              temperature (rs' ! r) = temperature s1 \<and>
              (\<forall>i j. 1 \<le> i \<and> i \<le> ROWS cfg \<and> 1 \<le> j \<and> j \<le> COLUMNS cfg \<longrightarrow>
                 temperature s1 i j =
                   0.25 * (temperature_last s1 (i + 1) j + temperature_last s1 (i - 1) j +
                           temperature_last s1 i (j + 1) + temperature_last s1 i (j - 1))) \<and>
              (\<forall>i j. (1 \<le> i \<and> i \<le> ROWS cfg) \<or> \<not> (1 \<le> j \<and> j \<le> COLUMNS cfg) \<longrightarrow>
                 temperature_last s1 i j = temperature_last (rs ! r) i j))"
proof -
  let ?rs0 = "initial_ranks n init"
  have rows: "ROWS cfg \<noteq> 0" using assms(1) by simp
  have "\<exists>d rs. after_iterations cfg dt_global_init ?rs0 k = Inr (d, rs) \<and> length rs = length ?rs0 \<and>
           (if k = 0 then d = dt_global_init \<and> rs = ?rs0 else exchange_pending cfg rs)"
    by (rule after_iterations_returns [OF rows assms(2) quiet_initial_ranks])
  then obtain d rs where k: "after_iterations cfg dt_global_init ?rs0 k = Inr (d, rs)" "length rs = n"
    by auto
  note step = after_iterations_Suc [OF rows assms(2) quiet_initial_ranks k(1)]
  let ?rs' = "lockstep_result cfg (int k + 1) rs"
  have "\<exists>s1. compute_phase cfg (int n) (int r) (inbox_of rs (int r)) (rs ! r) = Inr s1 \<and>
              temperature (?rs' ! r) = temperature s1 \<and>
              (\<forall>i j. 1 \<le> i \<and> i \<le> ROWS cfg \<and> 1 \<le> j \<and> j \<le> COLUMNS cfg \<longrightarrow>
                 temperature s1 i j =
                   0.25 * (temperature_last s1 (i + 1) j + temperature_last s1 (i - 1) j +
                           temperature_last s1 i (j + 1) + temperature_last s1 i (j - 1))) \<and>
              (\<forall>i j. (1 \<le> i \<and> i \<le> ROWS cfg) \<or> \<not> (1 \<le> j \<and> j \<le> COLUMNS cfg) \<longrightarrow>
                 temperature_last s1 i j = temperature_last (rs ! r) i j)"
    if r: "r < n" for r
  proof -
    let ?s1 = "interior_task cfg (boundary_result cfg (int n) (int r) (inbox_of rs (int r)) (rs ! r))"
    have r': "r < length rs" using r k(2) by simp
    have "\<forall>h. wait_returns (inbox_of rs (int r)) (requests (rs ! r) h)"
      using step(3) r' by (auto intro: waits_return_quiet waits_return_pending)
    then have "compute_phase cfg (int n) (int r) (inbox_of rs (int r)) (rs ! r) = Inr ?s1"
      using rows by (simp add: compute_phase_eq)
    moreover have "temperature (?rs' ! r) = temperature ?s1"
      using r' k(2) by (simp add: nth_lockstep_result)
    moreover have "temperature ?s1 i j =
                   0.25 * (temperature_last ?s1 (i + 1) j + temperature_last ?s1 (i - 1) j +
                           temperature_last ?s1 i (j + 1) + temperature_last ?s1 i (j - 1))"
      if "1 \<le> i \<and> i \<le> ROWS cfg \<and> 1 \<le> j \<and> j \<le> COLUMNS cfg" for i j
      using compute_stencil [OF step(3) r', where i = i and j = j and n = "int n" and r' = "int r"] that
      by (simp add: stencil_def)
    moreover have "temperature_last ?s1 i j = temperature_last (rs ! r) i j"
      if "(1 \<le> i \<and> i \<le> ROWS cfg) \<or> \<not> (1 \<le> j \<and> j \<le> COLUMNS cfg)" for i j
      using previous_rows_kept [OF step(3) r' that] by simp
    ultimately show ?thesis by blast
  qed
  then show ?thesis
    using k step(1) by (intro exI [of _ d] exI [of _ rs] exI [of _ "allreduce_max (map dt ?rs')"]
        exI [of _ ?rs']) simp
qed

subsection \<open>The halo exchange\<close>

lemma after_iterations_pending:
  assumes "ROWS cfg \<noteq> 0" and "PRINT_FREQUENCY cfg \<noteq> 0" and "quiet rs0"
  shows "\<exists>d rs. after_iterations cfg d0 rs0 (Suc k) = Inr (d, rs) \<and> length rs = length rs0 \<and>
           exchange_pending cfg rs"
  using after_iterations_returns [OF assms, of d0 "Suc k"] by simp

lemma pending_link:
  assumes "exchange_pending cfg rs" and "r + 1 < length rs"
  shows "matching_sends (rs ! r) (int r + 1) 0 =
           [((int r + 1, 0), load_row cfg (temperature (rs ! r)) (ROWS cfg))]"
    and "matching_receives (rs ! (r + 1)) (int r) 0 = [Top_Recv]"
    and "matching_sends (rs ! (r + 1)) (int r) 1 =
           [((int r, 1), load_row cfg (temperature (rs ! (r + 1))) 1)]"
    and "matching_receives (rs ! r) (int r + 1) 1 = [Bottom_Recv]"
    and "matching_sends (rs ! r) (int r + 1) 1 = []"
    and "matching_sends (rs ! (r + 1)) (int r) 0 = []"
proof -
  have r: "requests (rs ! r) = launched_requests cfg (int (length rs)) (int r)"
    "outbox (rs ! r) = launched_messages cfg (int (length rs)) (int r) (temperature (rs ! r))"
    and r1: "requests (rs ! (r + 1)) = launched_requests cfg (int (length rs)) (int (r + 1))"
    "outbox (rs ! (r + 1)) =
       launched_messages cfg (int (length rs)) (int (r + 1)) (temperature (rs ! (r + 1)))"
    using assms by (simp_all add: exchange_pending_def)
  have ne: "int r \<noteq> int (length rs) - 1" using assms(2) by simp
  show "matching_sends (rs ! r) (int r + 1) 0 =
           [((int r + 1, 0), load_row cfg (temperature (rs ! r)) (ROWS cfg))]"
    using ne r by (simp add: matching_sends_def launched_messages_def)
  show "matching_receives (rs ! (r + 1)) (int r) 0 = [Top_Recv]"
    using r1 by (simp add: matching_receives_def launched_requests_def)
  show "matching_sends (rs ! (r + 1)) (int r) 1 =
           [((int r, 1), load_row cfg (temperature (rs ! (r + 1))) 1)]"
    using r1 by (simp add: matching_sends_def launched_messages_def)
  show "matching_receives (rs ! r) (int r + 1) 1 = [Bottom_Recv]"
    using ne r by (simp add: matching_receives_def launched_requests_def)
  show "matching_sends (rs ! r) (int r + 1) 1 = []"
    using r by (simp add: matching_sends_def launched_messages_def)
  show "matching_sends (rs ! (r + 1)) (int r) 0 = []"
    using r1 by (simp add: matching_sends_def launched_messages_def)
qed

lemma pending_destinations:
  assumes "exchange_pending cfg rs" and "r < length rs" and "m \<in> set (outbox (rs ! r))"
  shows "fst m = (int r + 1, 0) \<and> r + 1 < length rs \<or> fst m = (int r - 1, 1) \<and> 0 < r"
proof -
  have "outbox (rs ! r) = launched_messages cfg (int (length rs)) (int r) (temperature (rs ! r))"
    using assms by (simp add: exchange_pending_def)
  with assms(2,3) show ?thesis
    by (auto simp add: launched_messages_def split: if_splits)
qed

lemma halo_rows_after:
  assumes "exchange_pending cfg rs" and "r < length rs" and "1 \<le> j" and "j \<le> COLUMNS cfg"
  shows "0 < r \<Longrightarrow> temperature_last (lockstep_result cfg it rs ! r) 0 j =
                    temperature (rs ! (r - 1)) (ROWS cfg) j"
    and "r + 1 < length rs \<Longrightarrow> temperature_last (lockstep_result cfg it rs ! r) (ROWS cfg + 1) j =
                    temperature (rs ! (r + 1)) 1 j"
  using assms
  by (simp_all add: nth_lockstep_result delta_pass_temperature_last halos_pending)

lemma example_config_wf:
  "1 \<le> ROWS example_config" "PRINT_FREQUENCY example_config \<noteq> 0"
  "- 1 \<le> MAX_NUMBER_OF_ITERATIONS example_config" "MAX_NUMBER_OF_ITERATIONS example_config < INT_MAX"
  "2 \<le> ROWS example_config"
  by (simp_all add: example_config_def INT_MAX_def)

theorem stencil_update_witness:
  "\<exists>d rs d' rs'.
           after_iterations example_config dt_global_init (initial_ranks 2 example_init) 1 = Inr (d, rs) \<and>
           after_iterations example_config dt_global_init (initial_ranks 2 example_init) (Suc 1) = Inr (d', rs') \<and>
           length rs = 2 \<and> length rs' = 2 \<and>
           (\<forall>r < 2. \<exists>s1.
              compute_phase example_config (int 2) (int r) (inbox_of rs (int r)) (rs ! r) = Inr s1 \<and>
              temperature (rs' ! r) = temperature s1 \<and>
              (\<forall>i j. 1 \<le> i \<and> i \<le> ROWS example_config \<and> 1 \<le> j \<and> j \<le> COLUMNS example_config \<longrightarrow>
                 temperature s1 i j =
                   0.25 * (temperature_last s1 (i + 1) j + temperature_last s1 (i - 1) j +
                           temperature_last s1 i (j + 1) + temperature_last s1 i (j - 1))) \<and>
              (\<forall>i j. (1 \<le> i \<and> i \<le> ROWS example_config) \<or> \<not> (1 \<le> j \<and> j \<le> COLUMNS example_config) \<longrightarrow>
                 temperature_last s1 i j = temperature_last (rs ! r) i j))"
  by (rule stencil_update [OF example_config_wf(1,2)])

subsection \<open>The first execution of the loop body\<close>

lemma nth_initial_ranks:
  "r < n \<Longrightarrow> initial_ranks n init ! r = initial_state (fst (init r)) (snd (init r))"
  by (simp add: initial_ranks_def)

lemma initial_state_fields [simp]:
  "temperature (initial_state t0 t1) = t0"
  "temperature_last (initial_state t0 t1) = t1"
  "requests (initial_state t0 t1) = (\<lambda>h. MPI_REQUEST_NULL)"
  "outbox (initial_state t0 t1) = []"
  "events (initial_state t0 t1) = []"
  "interior_events (initial_state t0 t1) = []"
  by (simp_all add: initial_state_def)

text \<open>
  Claim C10. Before the first execution of the loop body the four requests of a process
  are \<^verbatim>\<open>MPI_REQUEST_NULL\<close> and nothing has been launched. So every wait of the first execution
  returns at once and changes no grid (it only shows in the list of events, called on
  \<^verbatim>\<open>MPI_REQUEST_NULL\<close>); rows 1 and \<^verbatim>\<open>ROWS\<close> of \<^verbatim>\<open>temperature\<close> are computed from
  \<^verbatim>\<open>temperature_last\<close> as \<^verbatim>\<open>initialise_temperatures\<close> filled it, halo rows 0 and \<^verbatim>\<open>ROWS + 1\<close>
  included; and the first calls of \<^verbatim>\<open>MPI_Irecv\<close> and \<^verbatim>\<open>MPI_Isend\<close> come after these writes, as
  the last thing thread 0 does before the barrier of the first execution.
\<close>

theorem first_iteration:
  assumes "1 \<le> ROWS cfg" and "PRINT_FREQUENCY cfg \<noteq> 0" and "r < n"
  shows "initial_ranks n init ! r = initial_state (fst (init r)) (snd (init r)) \<and>
         requests (initial_state (fst (init r)) (snd (init r))) = (\<lambda>h. MPI_REQUEST_NULL) \<and>
         events (initial_state (fst (init r)) (snd (init r))) = [] \<and>
         (\<forall>h inbox. MPI_Wait inbox h (initial_state (fst (init r)) (snd (init r))) =
            Inr ((initial_state (fst (init r)) (snd (init r)))\<lparr>events := [Wait h MPI_REQUEST_NULL]\<rparr>)) \<and>
         (\<exists>s'. loop_body cfg (int n) (int r) 1 (inbox_of (initial_ranks n init) (int r))
                  (initial_ranks n init ! r) = Inr s' \<and>
               events s' =
                 [Wait Top_Send MPI_REQUEST_NULL, Wait Top_Recv MPI_REQUEST_NULL] @
                 map (Write 1) [1 ..< Suc (COLUMNS cfg)] @
                 [Wait Bottom_Send MPI_REQUEST_NULL, Wait Bottom_Recv MPI_REQUEST_NULL] @
                 map (Write (ROWS cfg)) [1 ..< Suc (COLUMNS cfg)] @
                 launch_events cfg (int n) (int r) @
                 Omp_Barrier #
                 map (\<lambda>(i, j). Delta i j)
                   (List.product [1 ..< Suc (ROWS cfg)] [1 ..< Suc (COLUMNS cfg)]) @
                 (if 1 smod PRINT_FREQUENCY cfg = 0 \<and> int r = int n - 1
                  then [Track_Progress 1] else []) \<and>
               list_all is_launch (launch_events cfg (int n) (int r)) \<and>
               (\<forall>j. 1 \<le> j \<and> j \<le> COLUMNS cfg \<longrightarrow>
                  temperature s' 1 j =
                    0.25 * (snd (init r) 2 j + snd (init r) 0 j +
                            snd (init r) 1 (j + 1) + snd (init r) 1 (j - 1)) \<and>
                  temperature s' (ROWS cfg) j =
                    0.25 * (snd (init r) (ROWS cfg + 1) j + snd (init r) (ROWS cfg - 1) j +
                            snd (init r) (ROWS cfg) (j + 1) + snd (init r) (ROWS cfg) (j - 1))))"
proof -
  let ?s0 = "initial_state (fst (init r)) (snd (init r))"
  let ?rs0 = "initial_ranks n init"
  let ?s' = "body_result cfg (int n) (int r) 1 (inbox_of ?rs0 (int r)) (?rs0 ! r)"
  have nth: "?rs0 ! r = ?s0" using assms(3) by (rule nth_initial_ranks)
  have r: "r < length ?rs0" using assms(3) by simp
  have q: "quiet ?rs0 \<or> exchange_pending cfg ?rs0" by simp
  have wait: "MPI_Wait inbox h ?s0 = Inr (?s0\<lparr>events := [Wait h MPI_REQUEST_NULL]\<rparr>)" for h inbox
    by (simp add: MPI_Wait_def initial_state_def)
  have body: "loop_body cfg (int n) (int r) 1 (inbox_of ?rs0 (int r)) (?rs0 ! r) = Inr ?s'"
    using assms(1,2) by (simp add: loop_body_eq nth)
  have ev: "events ?s' =
                 [Wait Top_Send MPI_REQUEST_NULL, Wait Top_Recv MPI_REQUEST_NULL] @
                 map (Write 1) [1 ..< Suc (COLUMNS cfg)] @
                 [Wait Bottom_Send MPI_REQUEST_NULL, Wait Bottom_Recv MPI_REQUEST_NULL] @
                 map (Write (ROWS cfg)) [1 ..< Suc (COLUMNS cfg)] @
                 launch_events cfg (int n) (int r) @
                 Omp_Barrier #
                 map (\<lambda>(i, j). Delta i j)
                   (List.product [1 ..< Suc (ROWS cfg)] [1 ..< Suc (COLUMNS cfg)]) @
                 (if 1 smod PRINT_FREQUENCY cfg = 0 \<and> int r = int n - 1
                  then [Track_Progress 1] else [])"
    by (simp add: body_result_events nth del: upt_Suc)
  have cells: "temperature ?s' 1 j =
                    0.25 * (snd (init r) 2 j + snd (init r) 0 j +
                            snd (init r) 1 (j + 1) + snd (init r) 1 (j - 1)) \<and>
                  temperature ?s' (ROWS cfg) j =
                    0.25 * (snd (init r) (ROWS cfg + 1) j + snd (init r) (ROWS cfg - 1) j +
                            snd (init r) (ROWS cfg) (j + 1) + snd (init r) (ROWS cfg) (j - 1))"
    if "1 \<le> j \<and> j \<le> COLUMNS cfg" for j
  proof -
    have last: "temperature_last (boundary_result cfg (int n) (int r) (inbox_of ?rs0 (int r)) (?rs0 ! r)) =
                snd (init r)"
      using halos_quiet [OF quiet_initial_ranks r] by (simp add: nth)
    have "temperature ?s' i j = stencil (snd (init r)) i j" if "i = 1 \<or> i = ROWS cfg" for i
      using compute_stencil [OF q r, where i = i and j = j and n = "int n" and r' = "int r"]
        that \<open>1 \<le> j \<and> j \<le> COLUMNS cfg\<close> assms(1)
      by (auto simp add: last)
    then show ?thesis by (simp add: stencil_def numeral_2_eq_2)
  qed
  show ?thesis
    using nth wait body ev cells by (intro conjI exI [of _ ?s'] allI impI) simp_all
qed

theorem first_iteration_witness:
  "\<exists>s'. loop_body example_config 2 0 1 (inbox_of (initial_ranks 2 example_init) 0)
           (initial_ranks 2 example_init ! 0) = Inr s' \<and>
         events s' =
           [Wait Top_Send MPI_REQUEST_NULL, Wait Top_Recv MPI_REQUEST_NULL, Write 1 1,
            Wait Bottom_Send MPI_REQUEST_NULL, Wait Bottom_Recv MPI_REQUEST_NULL, Write 2 1,
            Isend Bottom_Send 2 1 0, Irecv Bottom_Recv 3 1 1,
            Omp_Barrier, Delta 1 1, Delta 2 1] \<and>
         temperature s' 1 1 = 1"
proof -
  have "(0::nat) < 2" by simp
  from first_iteration [OF example_config_wf(1,2) this, of example_init]
  obtain s' where a: "loop_body example_config (int 2) (int 0) 1 (inbox_of (initial_ranks 2 example_init) (int 0))
                  (initial_ranks 2 example_init ! 0) = Inr s'"
    and b: "events s' =
                 [Wait Top_Send MPI_REQUEST_NULL, Wait Top_Recv MPI_REQUEST_NULL] @
                 map (Write 1) [1 ..< Suc (COLUMNS example_config)] @
                 [Wait Bottom_Send MPI_REQUEST_NULL, Wait Bottom_Recv MPI_REQUEST_NULL] @
                 map (Write (ROWS example_config)) [1 ..< Suc (COLUMNS example_config)] @
                 launch_events example_config (int 2) (int 0) @
                 Omp_Barrier #
                 map (\<lambda>(i, j). Delta i j)
                   (List.product [1 ..< Suc (ROWS example_config)] [1 ..< Suc (COLUMNS example_config)]) @
                 (if 1 smod PRINT_FREQUENCY example_config = 0 \<and> int 0 = int 2 - 1
                  then [Track_Progress 1] else [])"
    and c: "\<forall>j. 1 \<le> j \<and> j \<le> COLUMNS example_config \<longrightarrow>
                  temperature s' 1 j =
                    0.25 * (snd (example_init 0) 2 j + snd (example_init 0) 0 j +
                            snd (example_init 0) 1 (j + 1) + snd (example_init 0) 1 (j - 1)) \<and>
                  temperature s' (ROWS example_config) j =
                    0.25 * (snd (example_init 0) (ROWS example_config + 1) j + snd (example_init 0) (ROWS example_config - 1) j +
                            snd (example_init 0) (ROWS example_config) (j + 1) + snd (example_init 0) (ROWS example_config) (j - 1))"
    by (elim conjE exE)
  have "temperature s' 1 1 = 1"
    using c [rule_format, of 1] by (simp add: example_config_def example_init_def)
  moreover have "events s' =
           [Wait Top_Send MPI_REQUEST_NULL, Wait Top_Recv MPI_REQUEST_NULL, Write 1 1,
            Wait Bottom_Send MPI_REQUEST_NULL, Wait Bottom_Recv MPI_REQUEST_NULL, Write 2 1,
            Isend Bottom_Send 2 1 0, Irecv Bottom_Recv 3 1 1,
            Omp_Barrier, Delta 1 1, Delta 2 1]"
    unfolding b by (simp add: example_config_def launch_events_def numeral_2_eq_2)
  ultimately show ?thesis using a by simp
qed

subsection \<open>Transfers and neighbours\<close>

lemma launch_in_body_result:
  assumes "is_launch e" and "e \<in> set (events (body_result cfg n r it inbox s))"
  shows "e \<in> set (events s) \<or> e \<in> set (launch_events cfg n r)"
  using assms by (auto simp add: body_result_events simp del: upt_Suc)

lemma launches_after_iterations:
  assumes "ROWS cfg \<noteq> 0" and "PRINT_FREQUENCY cfg \<noteq> 0"
  shows "\<exists>d rs. after_iterations cfg d0 (initial_ranks n init) k = Inr (d, rs) \<and> length rs = n \<and>
           (\<forall>r < n. \<forall>e \<in> set (events (rs ! r)).
              is_launch e \<longrightarrow> e \<in> set (launch_events cfg (int n) (int r)))"
proof (induction k)
  case 0
  then show ?case by (simp add: nth_initial_ranks)
next
  case (Suc k)
  then obtain d rs where k: "after_iterations cfg d0 (initial_ranks n init) k = Inr (d, rs)"
    "length rs = n"
    and inv: "\<forall>r < n. \<forall>e \<in> set (events (rs ! r)).
                is_launch e \<longrightarrow> e \<in> set (launch_events cfg (int n) (int r))"
    by blast
  note step = after_iterations_Suc [OF assms quiet_initial_ranks k(1)]
  let ?rs' = "lockstep_result cfg (int k + 1) rs"
  have "e \<in> set (launch_events cfg (int n) (int r))"
    if "r < n" "e \<in> set (events (?rs' ! r))" "is_launch e" for r e
  proof -
    have "e \<in> set (events (body_result cfg (int n) (int r) (int k + 1) (inbox_of rs (int r)) (rs ! r)))"
      using that(1,2) k(2) by (simp add: nth_lockstep_result)
    from launch_in_body_result [OF that(3) this] inv that(1,3) show ?thesis by blast
  qed
  then show ?case
    using step(1) k(2) by (intro exI [of _ "allreduce_max (map dt ?rs')"] exI [of _ ?rs']) simp
qed

lemma launch_events_neighbour:
  assumes "e \<in> set (launch_events cfg (int n) (int r))" and "r < n"
  shows "is_launch e"
    and "\<exists>h p. handle_of e = Some h \<and> peer_of e = Some p \<and> 0 \<le> p \<and> p < int n \<and>
           (if h = Top_Send \<or> h = Top_Recv then p = int r - 1 \<and> r \<noteq> 0
            else p = int r + 1 \<and> r \<noteq> n - 1)"
  using assms by (auto simp add: launch_events_def split: if_splits)

text \<open>
  Claim C7. After any number of executions of the loop body, every call of \<^verbatim>\<open>MPI_Isend\<close> or
  \<^verbatim>\<open>MPI_Irecv\<close> a process \<open>r\<close> of \<open>n\<close> has made names a process that exists: the one above,
  \<open>r - 1\<close>, through \<^verbatim>\<open>top_send\<close> and \<^verbatim>\<open>top_recv\<close>, and then \<open>r\<close> is not 0; the one below, \<open>r + 1\<close>,
  through \<^verbatim>\<open>bottom_send\<close> and \<^verbatim>\<open>bottom_recv\<close>, and then \<open>r\<close> is not \<open>n - 1\<close>. So process 0 makes no
  call for an upper neighbour, process \<open>n - 1\<close> none for a lower neighbour, and a single
  process makes no such call at all.
\<close>

theorem transfers_only_to_neighbours:
  assumes "1 \<le> ROWS cfg" and "PRINT_FREQUENCY cfg \<noteq> 0"
  shows "\<exists>d rs. after_iterations cfg dt_global_init (initial_ranks n init) k = Inr (d, rs) \<and>
           length rs = n \<and>
           (\<forall>r e. r < n \<and> e \<in> set (events (rs ! r)) \<and> is_launch e \<longrightarrow>
              (\<exists>h p. handle_of e = Some h \<and> peer_of e = Some p \<and> 0 \<le> p \<and> p < int n \<and>
                 (if h = Top_Send \<or> h = Top_Recv then p = int r - 1 \<and> r \<noteq> 0
                  else p = int r + 1 \<and> r \<noteq> n - 1))) \<and>
           (\<forall>e. 0 < n \<and> e \<in> set (events (rs ! 0)) \<longrightarrow>
              handle_of e \<noteq> Some Top_Send \<and> handle_of e \<noteq> Some Top_Recv) \<and>
           (\<forall>e. 0 < n \<and> e \<in> set (events (rs ! (n - 1))) \<longrightarrow>
              handle_of e \<noteq> Some Bottom_Send \<and> handle_of e \<noteq> Some Bottom_Recv) \<and>
           (\<forall>e. n = 1 \<and> e \<in> set (events (rs ! 0)) \<longrightarrow> \<not> is_launch e)"
proof -
  have rows: "ROWS cfg \<noteq> 0" using assms(1) by simp
  from launches_after_iterations [OF rows assms(2), of dt_global_init n init k]
  obtain d rs where k: "after_iterations cfg dt_global_init (initial_ranks n init) k = Inr (d, rs)"
    "length rs = n"
    and inv: "\<forall>r < n. \<forall>e \<in> set (events (rs ! r)).
                is_launch e \<longrightarrow> e \<in> set (launch_events cfg (int n) (int r))"
    by blast
  have main: "\<exists>h p. handle_of e = Some h \<and> peer_of e = Some p \<and> 0 \<le> p \<and> p < int n \<and>
                 (if h = Top_Send \<or> h = Top_Recv then p = int r - 1 \<and> r \<noteq> 0
                  else p = int r + 1 \<and> r \<noteq> n - 1)"
    if "r < n" "e \<in> set (events (rs ! r))" "is_launch e" for r e
    using launch_events_neighbour(2) [of e cfg n r] inv that by blast
  have launch: "is_launch e" if "handle_of e = Some h" for e h
    using that by (cases e) simp_all
  have top: "handle_of e \<noteq> Some Top_Send \<and> handle_of e \<noteq> Some Top_Recv"
    if "0 < n" "e \<in> set (events (rs ! 0))" for e
  proof (cases "is_launch e")
    case True
    from main [OF that(1,2) True] show ?thesis by auto
  next
    case False
    with launch show ?thesis by blast
  qed
  have bottom: "handle_of e \<noteq> Some Bottom_Send \<and> handle_of e \<noteq> Some Bottom_Recv"
    if "0 < n" "e \<in> set (events (rs ! (n - 1)))" for e
  proof (cases "is_launch e")
    case True
    have "n - 1 < n" using that(1) by simp
    from main [OF this that(2) True] show ?thesis by auto
  next
    case False
    with launch show ?thesis by blast
  qed
  have single: "\<not> is_launch e" if "n = 1" "e \<in> set (events (rs ! 0))" for e
  proof
    assume l: "is_launch e"
    have "(0::nat) < n" using that(1) by simp
    from main [OF this that(2) l] that(1) show False by (auto split: if_splits)
  qed
  show ?thesis
    using k main top bottom single by (intro exI [of _ d] exI [of _ rs]) blast
qed

theorem transfers_only_to_neighbours_witness:
  "\<exists>d rs. after_iterations example_config dt_global_init (initial_ranks (1::nat) example_init) 3 = Inr (d, rs) \<and>
           length rs = (1::nat) \<and>
           (\<forall>r e. r < (1::nat) \<and> e \<in> set (events (rs ! r)) \<and> is_launch e \<longrightarrow>
              (\<exists>h p. handle_of e = Some h \<and> peer_of e = Some p \<and> 0 \<le> p \<and> p < int (1::nat) \<and>
                 (if h = Top_Send \<or> h = Top_Recv then p = int r - 1 \<and> r \<noteq> 0
                  else p = int r + 1 \<and> r \<noteq> (1::nat) - 1))) \<and>
           (\<forall>e. 0 < (1::nat) \<and> e \<in> set (events (rs ! 0)) \<longrightarrow>
              handle_of e \<noteq> Some Top_Send \<and> handle_of e \<noteq> Some Top_Recv) \<and>
           (\<forall>e. 0 < (1::nat) \<and> e \<in> set (events (rs ! ((1::nat) - 1))) \<longrightarrow>
              handle_of e \<noteq> Some Bottom_Send \<and> handle_of e \<noteq> Some Bottom_Recv) \<and>
           (\<forall>e. (1::nat) = 1 \<and> e \<in> set (events (rs ! 0)) \<longrightarrow> \<not> is_launch e)"
  by (rule transfers_only_to_neighbours [OF example_config_wf(1,2)])

subsection \<open>Writes to send buffers\<close>

lemma sends_row_iff: "sends_row rq i \<longleftrightarrow> (\<exists>h dest tag. rq h = Send_Request i dest tag)"
proof
  assume "sends_row rq i"
  then obtain h where "case rq h of Send_Request row dest tag \<Rightarrow> row = i | _ \<Rightarrow> False"
    by (auto simp add: sends_row_def)
  then show "\<exists>h dest tag. rq h = Send_Request i dest tag"
    by (cases "rq h") auto
next
  assume "\<exists>h dest tag. rq h = Send_Request i dest tag"
  then obtain h dest tag where h: "rq h = Send_Request i dest tag" by blast
  then show "sends_row rq i"
    by (cases h) (simp_all add: sends_row_def)
qed

lemma guarded_head: "guarded B rq es \<Longrightarrow> sends_row rq i \<Longrightarrow> i \<in> B"
  by (cases es) simp_all

lemma shuffles_safe:
  assumes "\<forall>e \<in> set ys. \<exists>i j. e = Write i j \<and> i \<notin> B"
  shows "guarded B rq xs \<Longrightarrow> zs \<in> shuffles xs ys \<Longrightarrow> send_buffers_safe rq zs"
  using assms
proof (induction zs arbitrary: xs ys rq)
  case Nil
  then show ?case by simp
next
  case (Cons z zs)
  from Cons.prems(2) consider
    (left) "xs \<noteq> []" "hd xs = z" "zs \<in> shuffles (tl xs) ys"
  | (right) "ys \<noteq> []" "hd ys = z" "zs \<in> shuffles xs (tl ys)"
    by (auto simp add: Cons_in_shuffles_iff)
  then show ?case
  proof cases
    case left
    then obtain xs' where xs: "xs = z # xs'" by (cases xs) auto
    with Cons.prems(1) have "\<not> writes_in_flight rq z" "guarded B (requests_after rq z) xs'"
      by simp_all
    moreover have "zs \<in> shuffles xs' ys" using left xs by simp
    ultimately show ?thesis
      using Cons.IH [of "requests_after rq z" xs' ys] Cons.prems(3) by simp
  next
    case right
    then obtain ys' where ys: "ys = z # ys'" by (cases ys) auto
    with Cons.prems(3) obtain i j where z: "z = Write i j" "i \<notin> B" by auto
    have "\<not> sends_row rq i" using guarded_head [OF Cons.prems(1)] z(2) by blast
    moreover have "zs \<in> shuffles xs ys'" using right ys by simp
    moreover have "\<forall>e \<in> set ys'. \<exists>i j. e = Write i j \<and> i \<notin> B" using Cons.prems(3) ys by simp
    ultimately show ?thesis
      using Cons.IH [of rq xs ys'] Cons.prems(1) z(1) by simp
  qed
qed

lemma guarded_writes:
  "guarded B rq (map (Write i) js @ es) \<longleftrightarrow> (js \<noteq> [] \<longrightarrow> \<not> sends_row rq i) \<and> guarded B rq es"
  by (induction js) (auto dest: guarded_head)

lemma guarded_neutral:
  "\<forall>e \<in> set es. \<not> is_write e \<and> \<not> is_wait e \<and> \<not> is_launch e \<Longrightarrow>
   guarded B rq es \<longleftrightarrow> (\<forall>i. sends_row rq i \<longrightarrow> i \<in> B)"
proof (induction es)
  case Nil
  then show ?case by simp
next
  case (Cons e es)
  then have "requests_after rq e = rq" "\<not> writes_in_flight rq e"
    by (cases e; simp)+
  with Cons show ?case by auto
qed

lemma sends_row_null [simp]: "\<not> sends_row (\<lambda>h. MPI_REQUEST_NULL) i"
  by (simp add: sends_row_iff)

lemma guarded_iteration:
  assumes "2 \<le> ROWS cfg" and "rq = launched_requests cfg n r \<or> rq = (\<lambda>h. MPI_REQUEST_NULL)"
    and "\<forall>e \<in> set es. \<not> is_write e \<and> \<not> is_wait e \<and> \<not> is_launch e"
  shows "guarded {1, ROWS cfg} rq
           ([Wait Top_Send (rq Top_Send), Wait Top_Recv (rq Top_Recv)] @
            map (Write 1) js @
            [Wait Bottom_Send (rq Bottom_Send), Wait Bottom_Recv (rq Bottom_Recv)] @
            map (Write (ROWS cfg)) js' @
            launch_events cfg n r @ es)"
  using assms(2)
proof
  assume rq: "rq = launched_requests cfg n r"
  show ?thesis
    using assms(1)
    apply (cases "r = 0"; cases "r = n - 1")
       apply (simp_all add: rq guarded_writes guarded_neutral [OF assms(3)] launch_events_def
          launched_requests_def sends_row_def)
    done
next
  assume rq: "rq = (\<lambda>h. MPI_REQUEST_NULL)"
  show ?thesis
    using assms(1)
    apply (cases "r = 0"; cases "r = n - 1")
       apply (simp_all add: rq guarded_writes guarded_neutral [OF assms(3)] launch_events_def
          sends_row_def)
    done
qed

lemma body_result_interior_events:
  "interior_events (body_result cfg n r it inbox s) =
     interior_events s @
     concat (map (\<lambda>i. map (Write i) [1 ..< Suc (COLUMNS cfg)]) [2 ..< ROWS cfg])"
  by (simp add: boundary_result_def del: upt_Suc)

text \<open>
  One execution of the loop body with at least two rows per process, from the head of the
  loop: however the events of thread 0 and of the other threads interleave, no cell of a
  row is written while a send from that row is pending.
\<close>

lemma execution_send_buffers_safe:
  assumes "2 \<le> ROWS cfg" and "quiet rs \<or> exchange_pending cfg rs" and "r < length rs"
  shows "\<exists>new0 new1.
           events (lockstep_result cfg it rs ! r) = events (rs ! r) @ new0 \<and>
           interior_events (lockstep_result cfg it rs ! r) = interior_events (rs ! r) @ new1 \<and>
           (\<forall>zs \<in> shuffles new0 new1. send_buffers_safe (requests (rs ! r)) zs)"
proof -
  let ?s = "rs ! r"
  let ?rq = "requests ?s"
  let ?n = "int (length rs)"
  have rq: "?rq = launched_requests cfg ?n (int r) \<or> ?rq = (\<lambda>h. MPI_REQUEST_NULL)"
    using assms(2,3) by (auto simp add: exchange_pending_def quiet_def)
  define T where "T = Omp_Barrier #
     map (\<lambda>(i, j). Delta i j) (List.product [1 ..< Suc (ROWS cfg)] [1 ..< Suc (COLUMNS cfg)]) @
     (if it smod PRINT_FREQUENCY cfg = 0 \<and> int r = ?n - 1 then [Track_Progress it] else [])"
  define new0 where "new0 =
     [Wait Top_Send (?rq Top_Send), Wait Top_Recv (?rq Top_Recv)] @
     map (Write 1) [1 ..< Suc (COLUMNS cfg)] @
     [Wait Bottom_Send (?rq Bottom_Send), Wait Bottom_Recv (?rq Bottom_Recv)] @
     map (Write (ROWS cfg)) [1 ..< Suc (COLUMNS cfg)] @
     launch_events cfg ?n (int r) @ T"
  define new1 where "new1 =
     concat (map (\<lambda>i. map (Write i) [1 ..< Suc (COLUMNS cfg)]) [2 ..< ROWS cfg])"
  have nth: "lockstep_result cfg it rs ! r = body_result cfg ?n (int r) it (inbox_of rs (int r)) ?s"
    using assms(3) by (simp add: nth_lockstep_result)
  have ev: "events (lockstep_result cfg it rs ! r) = events ?s @ new0"
    unfolding nth body_result_events new0_def T_def by simp
  have iev: "interior_events (lockstep_result cfg it rs ! r) = interior_events ?s @ new1"
    unfolding nth body_result_interior_events new1_def by simp
  have T: "\<forall>e \<in> set T. \<not> is_write e \<and> \<not> is_wait e \<and> \<not> is_launch e"
    by (auto simp add: T_def)
  have interior: "\<forall>e \<in> set new1. \<exists>i j. e = Write i j \<and> i \<notin> {1, ROWS cfg}"
    by (auto simp add: new1_def)
  have "guarded {1, ROWS cfg} ?rq new0"
    unfolding new0_def by (rule guarded_iteration [OF assms(1) rq T])
  from shuffles_safe [OF interior this]
  have "\<forall>zs \<in> shuffles new0 new1. send_buffers_safe ?rq zs" by blast
  with ev iev show ?thesis by blast
qed

text \<open>
  With at least two rows per process, take an execution of the loop body after the first
  one, on any process; the sends launched in the execution before are pending, from row 1
  to the upper neighbour and from row \<^verbatim>\<open>ROWS\<close> to the lower one. Among the events of thread 0,
  the wait on \<^verbatim>\<open>top_send\<close> comes before every write of row 1 and the wait on \<^verbatim>\<open>bottom_send\<close>
  before every write of row \<^verbatim>\<open>ROWS\<close>; the other threads write rows strictly between 1 and
  \<^verbatim>\<open>ROWS\<close> only. This is the order the two waits of thread 0 are placed for.
\<close>

lemma rows_written_after_wait:
  assumes "2 \<le> ROWS cfg" and "PRINT_FREQUENCY cfg \<noteq> 0"
  shows "\<exists>d rs d' rs'.
           after_iterations cfg dt_global_init (initial_ranks n init) (Suc k) = Inr (d, rs) \<and>
           after_iterations cfg dt_global_init (initial_ranks n init) (Suc (Suc k)) = Inr (d', rs') \<and>
           length rs = n \<and> length rs' = n \<and>
           (\<forall>r < n. \<exists>new0 new1.
              events (rs' ! r) = events (rs ! r) @ new0 \<and>
              interior_events (rs' ! r) = interior_events (rs ! r) @ new1 \<and>
              (0 < r \<longrightarrow> requests (rs ! r) Top_Send = Send_Request 1 (int r - 1) 1) \<and>
              (r + 1 < n \<longrightarrow> requests (rs ! r) Bottom_Send = Send_Request (ROWS cfg) (int r + 1) 0) \<and>
              list_ex (is_wait_on Top_Send) new0 \<and>
              all_before (is_wait_on Top_Send) (is_write_row 1) new0 \<and>
              list_ex (is_wait_on Bottom_Send) new0 \<and>
              all_before (is_wait_on Bottom_Send) (is_write_row (ROWS cfg)) new0 \<and>
              (\<forall>e \<in> set new1. \<exists>i j. e = Write i j \<and> 1 < i \<and> i < ROWS cfg) \<and>
              (\<forall>zs \<in> shuffles new0 new1. send_buffers_safe (requests (rs ! r)) zs))"
proof -
  let ?rs0 = "initial_ranks n init"
  have rows: "ROWS cfg \<noteq> 0" using assms(1) by simp
  from after_iterations_pending [OF rows assms(2) quiet_initial_ranks]
  obtain d rs where k: "after_iterations cfg dt_global_init ?rs0 (Suc k) = Inr (d, rs)"
    "length rs = n" and p: "exchange_pending cfg rs"
    by (metis length_initial_ranks)
  note step = after_iterations_Suc [OF rows assms(2) quiet_initial_ranks k(1)]
  let ?it = "int (Suc k) + 1"
  let ?rs' = "lockstep_result cfg ?it rs"
  have "\<exists>new0 new1.
              events (?rs' ! r) = events (rs ! r) @ new0 \<and>
              interior_events (?rs' ! r) = interior_events (rs ! r) @ new1 \<and>
              (0 < r \<longrightarrow> requests (rs ! r) Top_Send = Send_Request 1 (int r - 1) 1) \<and>
              (r + 1 < n \<longrightarrow> requests (rs ! r) Bottom_Send = Send_Request (ROWS cfg) (int r + 1) 0) \<and>
              list_ex (is_wait_on Top_Send) new0 \<and>
              all_before (is_wait_on Top_Send) (is_write_row 1) new0 \<and>
              list_ex (is_wait_on Bottom_Send) new0 \<and>
              all_before (is_wait_on Bottom_Send) (is_write_row (ROWS cfg)) new0 \<and>
              (\<forall>e \<in> set new1. \<exists>i j. e = Write i j \<and> 1 < i \<and> i < ROWS cfg) \<and>
              (\<forall>zs \<in> shuffles new0 new1. send_buffers_safe (requests (rs ! r)) zs)"
    if "r < n" for r
  proof -
    let ?s = "rs ! r"
    let ?rq = "requests ?s"
    have r: "r < length rs" using that k(2) by simp
    have rq: "?rq = launched_requests cfg (int n) (int r)"
      using p r k(2) by (simp add: exchange_pending_def)
    define A1 where "A1 = [Wait Top_Send (?rq Top_Send), Wait Top_Recv (?rq Top_Recv)]"
    define W1 where "W1 = map (Write 1) [1 ..< Suc (COLUMNS cfg)]"
    define A2 where "A2 = [Wait Bottom_Send (?rq Bottom_Send), Wait Bottom_Recv (?rq Bottom_Recv)]"
    define W2 where "W2 = map (Write (ROWS cfg)) [1 ..< Suc (COLUMNS cfg)]"
    define T where "T = Omp_Barrier #
       map (\<lambda>(i, j). Delta i j) (List.product [1 ..< Suc (ROWS cfg)] [1 ..< Suc (COLUMNS cfg)]) @
       (if ?it smod PRINT_FREQUENCY cfg = 0 \<and> int r = int n - 1 then [Track_Progress ?it] else [])"
    define new1 where "new1 =
       concat (map (\<lambda>i. map (Write i) [1 ..< Suc (COLUMNS cfg)]) [2 ..< ROWS cfg])"
    let ?L = "launch_events cfg (int n) (int r)"
    let ?new0 = "A1 @ W1 @ A2 @ W2 @ ?L @ T"
    have nth: "?rs' ! r = body_result cfg (int n) (int r) ?it (inbox_of rs (int r)) ?s"
      using r k(2) by (simp add: nth_lockstep_result)
    have ev: "events (?rs' ! r) = events ?s @ ?new0"
      unfolding nth body_result_events A1_def W1_def A2_def W2_def T_def by simp
    have iev: "interior_events (?rs' ! r) = interior_events ?s @ new1"
      unfolding nth body_result_interior_events new1_def by simp
    have T: "\<forall>e \<in> set T. \<not> is_write e \<and> \<not> is_wait e \<and> \<not> is_launch e"
      by (auto simp add: T_def)
    have L: "list_all (\<lambda>e. \<not> is_wait_on h e) ?L" for h
      by (simp add: launch_events_def)
    have top: "all_before (is_wait_on Top_Send) (is_write_row 1) (A1 @ (W1 @ A2 @ W2 @ ?L @ T))"
      using L [of Top_Send]
      by (intro all_before_split) (auto simp add: A1_def W1_def A2_def W2_def T_def list_all_iff)
    have bottom: "all_before (is_wait_on Bottom_Send) (is_write_row (ROWS cfg))
                    ((A1 @ W1 @ A2) @ (W2 @ ?L @ T))"
      using L [of Bottom_Send] assms(1)
      by (intro all_before_split) (auto simp add: A1_def W1_def A2_def W2_def T_def list_all_iff)
    have ex: "list_ex (is_wait_on Top_Send) ?new0" "list_ex (is_wait_on Bottom_Send) ?new0"
      by (simp_all add: A1_def A2_def)
    have interior: "\<forall>e \<in> set new1. \<exists>i j. e = Write i j \<and> i \<notin> {1, ROWS cfg}"
      by (auto simp add: new1_def)
    have interior': "\<forall>e \<in> set new1. \<exists>i j. e = Write i j \<and> 1 < i \<and> i < ROWS cfg"
      by (auto simp add: new1_def)
    have "guarded {1, ROWS cfg} ?rq ?new0"
      unfolding A1_def W1_def A2_def W2_def
      using guarded_iteration [OF assms(1) _ T, of ?rq "int n" "int r"] rq by simp
    from shuffles_safe [OF interior this]
    have safe: "\<forall>zs \<in> shuffles ?new0 new1. send_buffers_safe ?rq zs" by blast
    have ts: "0 < r \<longrightarrow> ?rq Top_Send = Send_Request 1 (int r - 1) 1"
      by (simp add: rq launched_requests_def)
    have bs: "r + 1 < n \<longrightarrow> ?rq Bottom_Send = Send_Request (ROWS cfg) (int r + 1) 0"
      by (auto simp add: rq launched_requests_def)
    show ?thesis
      using ev iev ts bs ex top bottom interior' safe
      by (intro exI [of _ ?new0] exI [of _ new1]) simp
  qed
  then show ?thesis
    using k step(1)
    by (intro exI [of _ d] exI [of _ rs] exI [of _ "allreduce_max (map dt ?rs')"] exI [of _ ?rs'])
       simp
qed

lemma one_row_config_fields [simp]:
  "ROWS one_row_config = 1" "COLUMNS one_row_config = 1" "MAX_TEMP_ERROR one_row_config = 0.01"
  "MAX_NUMBER_OF_ITERATIONS one_row_config = 1" "PRINT_FREQUENCY one_row_config = 100"
  by (simp_all add: one_row_config_def)

lemma one_row_first_dt:
  assumes "r < 2"
  shows "dt (lockstep_result one_row_config 1 (initial_ranks 2 example_init) ! r) = 1"
proof -
  let ?rs0 = "initial_ranks 2 example_init"
  let ?b = "boundary_result one_row_config 2 (int r) (inbox_of ?rs0 (int r)) (?rs0 ! r)"
  have r: "r < length ?rs0" using assms by simp
  have last: "temperature_last ?b = snd (example_init r)"
    using halos_quiet [OF quiet_initial_ranks r] assms by (simp add: nth_initial_ranks)
  have "temperature (interior_task one_row_config ?b) 1 1 = 1"
    by (simp add: interior_task_temperature boundary_result_temperature last stencil_def
          example_init_def)
  moreover have "temperature_last (interior_task one_row_config ?b) 1 1 = 0"
    by (simp add: last example_init_def)
  ultimately show ?thesis
    using r by (simp add: nth_lockstep_result delta_pass_dt)
qed

lemma one_row_run:
  "\<exists>d rs. relax_loop one_row_config 0 dt_global_init (initial_ranks 2 example_init) = Inr (2, d, rs) \<and>
     events (rs ! 0) =
       [Wait Top_Send MPI_REQUEST_NULL, Wait Top_Recv MPI_REQUEST_NULL, Write 1 1,
        Wait Bottom_Send MPI_REQUEST_NULL, Wait Bottom_Recv MPI_REQUEST_NULL, Write 1 1,
        Isend Bottom_Send 1 1 0, Irecv Bottom_Recv 2 1 1, Omp_Barrier, Delta 1 1,
        Wait Top_Send MPI_REQUEST_NULL, Wait Top_Recv MPI_REQUEST_NULL, Write 1 1,
        Wait Bottom_Send (Send_Request 1 1 0), Wait Bottom_Recv (Recv_Request 2 1 1), Write 1 1,
        Isend Bottom_Send 1 1 0, Irecv Bottom_Recv 2 1 1, Omp_Barrier, Delta 1 1]"
proof -
  let ?cfg = one_row_config
  let ?rs0 = "initial_ranks 2 example_init"
  let ?rs1 = "lockstep_result ?cfg 1 ?rs0"
  let ?d1 = "allreduce_max (map dt ?rs1)"
  let ?rs2 = "lockstep_result ?cfg 2 ?rs1"
  let ?d2 = "allreduce_max (map dt ?rs2)"
  have rows: "ROWS ?cfg \<noteq> 0" and pf: "PRINT_FREQUENCY ?cfg \<noteq> 0"
    by simp_all
  have step1: "lockstep ?cfg 1 ?rs0 = Inr (?d1, ?rs1)"
    by (rule lockstep_returns [OF rows pf]) simp
  have pending: "exchange_pending ?cfg ?rs1"
    by (rule exchange_pending_lockstep_result) simp
  then have step2: "lockstep ?cfg 2 ?rs1 = Inr (?d2, ?rs2)"
    by (intro lockstep_returns [OF rows pf]) simp
  have "map dt ?rs1 = [1, 1]"
  proof (rule nth_equalityI)
    show "length (map dt ?rs1) = length [1, 1 :: real]" by simp
    fix i assume "i < length (map dt ?rs1)"
    then have i: "i < 2" by simp
    then have "map dt ?rs1 ! i = 1" using one_row_first_dt [OF i] by simp
    moreover have "[1, 1 :: real] ! i = 1" using i by (cases i) auto
    ultimately show "map dt ?rs1 ! i = [1, 1] ! i" by simp
  qed
  then have d1: "?d1 = 1" by simp
  have "relax_loop ?cfg 0 dt_global_init ?rs0 = relax_loop ?cfg 1 ?d1 ?rs1"
    by (subst relax_loop.simps) (simp add: step1 dt_global_init_def INT_MAX_def)
  also have "\<dots> = relax_loop ?cfg 2 ?d2 ?rs2"
    by (subst relax_loop.simps) (simp add: step2 d1 INT_MAX_def)
  also have "\<dots> = Inr (2, ?d2, ?rs2)"
    by (subst relax_loop.simps) simp
  finally have run: "relax_loop ?cfg 0 dt_global_init ?rs0 = Inr (2, ?d2, ?rs2)" .
  have rq1: "requests (?rs1 ! 0) = launched_requests ?cfg 2 0"
    using pending by (simp add: exchange_pending_def)
  have ev1: "events (?rs1 ! 0) =
       [Wait Top_Send MPI_REQUEST_NULL, Wait Top_Recv MPI_REQUEST_NULL, Write 1 1,
        Wait Bottom_Send MPI_REQUEST_NULL, Wait Bottom_Recv MPI_REQUEST_NULL, Write 1 1,
        Isend Bottom_Send 1 1 0, Irecv Bottom_Recv 2 1 1, Omp_Barrier, Delta 1 1]"
    by (simp add: nth_lockstep_result body_result_events nth_initial_ranks launch_events_def)
  have "events (?rs2 ! 0) =
       events (?rs1 ! 0) @
       [Wait Top_Send MPI_REQUEST_NULL, Wait Top_Recv MPI_REQUEST_NULL, Write 1 1,
        Wait Bottom_Send (Send_Request 1 1 0), Wait Bottom_Recv (Recv_Request 2 1 1), Write 1 1,
        Isend Bottom_Send 1 1 0, Irecv Bottom_Recv 2 1 1, Omp_Barrier, Delta 1 1]"
    by (simp add: nth_lockstep_result [of 0 ?rs1] body_result_events rq1 launch_events_def
          launched_requests_def)
  with ev1 run show ?thesis by simp
qed

text \<open>
  Claim C6. The program waits on \<^verbatim>\<open>top_send\<close> before its loop over row 1 and on \<^verbatim>\<open>bottom_send\<close>
  before its loop over row \<^verbatim>\<open>ROWS\<close>, so that no row is written while a send from it is
  pending. With one row per process it misses this: row 1 is then also row \<^verbatim>\<open>ROWS\<close>, the
  buffer of the send to the lower neighbour, and the loop over row 1 (lines 106 to 113)
  writes it before the wait on \<^verbatim>\<open>bottom_send\<close> (line 116). The run of two processes with one
  row and one column each and a cap of 1 on the counter executes the loop body twice; in
  the second execution process 0 writes cell (1, 1) while its send of row 1, launched in
  the first execution, is pending.
\<close>

theorem send_row_written_in_flight:
  "\<not> send_buffers_safe (\<lambda>h. MPI_REQUEST_NULL)
       (events_of_rank 0
          (relax_loop one_row_config 0 dt_global_init (initial_ranks 2 example_init)))"
proof -
  from one_row_run obtain d rs where
    "relax_loop one_row_config 0 dt_global_init (initial_ranks 2 example_init) = Inr (2, d, rs)"
    "events (rs ! 0) =
       [Wait Top_Send MPI_REQUEST_NULL, Wait Top_Recv MPI_REQUEST_NULL, Write 1 1,
        Wait Bottom_Send MPI_REQUEST_NULL, Wait Bottom_Recv MPI_REQUEST_NULL, Write 1 1,
        Isend Bottom_Send 1 1 0, Irecv Bottom_Recv 2 1 1, Omp_Barrier, Delta 1 1,
        Wait Top_Send MPI_REQUEST_NULL, Wait Top_Recv MPI_REQUEST_NULL, Write 1 1,
        Wait Bottom_Send (Send_Request 1 1 0), Wait Bottom_Recv (Recv_Request 2 1 1), Write 1 1,
        Isend Bottom_Send 1 1 0, Irecv Bottom_Recv 2 1 1, Omp_Barrier, Delta 1 1]"
    by blast
  then show ?thesis by (simp add: sends_row_def)
qed

subsection \<open>The rows delivered\<close>

text \<open>
  Claim C4. With at least two rows per process, take the states \<open>rs0\<close> of the processes
  after any number of executions of the loop body, the states \<open>rs\<close> after the next
  execution, which launches an exchange, and the states \<open>rs'\<close> after the execution that
  follows, which begins with the waits. On every link between a process \<open>r\<close> and the
  process \<open>r + 1\<close> below it, \<open>r\<close> has in \<open>rs\<close> exactly one message for \<open>r + 1\<close>, with tag 0 and
  the values of row \<^verbatim>\<open>ROWS\<close> of its \<^verbatim>\<open>temperature\<close>, and \<open>r + 1\<close> has exactly one receive pending
  for source \<open>r\<close> and tag 0, its \<^verbatim>\<open>top_recv\<close>; in the other direction \<open>r + 1\<close> has exactly one
  message for \<open>r\<close>, with tag 1 and row 1 of its \<^verbatim>\<open>temperature\<close>, and \<open>r\<close> has exactly one
  receive pending for source \<open>r + 1\<close> and tag 1, its \<^verbatim>\<open>bottom_recv\<close>; no message on the link
  has the tag of the other direction, and no message goes anywhere else. After the waits,
  columns 1 to \<^verbatim>\<open>COLUMNS\<close> of halo row 0 of \<^verbatim>\<open>temperature_last\<close> of \<open>r + 1\<close> hold row \<^verbatim>\<open>ROWS\<close> of
  \<^verbatim>\<open>temperature\<close> of \<open>r\<close> as it was sent, and those of halo row \<^verbatim>\<open>ROWS + 1\<close> of \<open>r\<close> hold
  row 1 of \<open>r + 1\<close>. In both executions, the one that launches the sends and the one that
  waits for them, no cell of a row is written while a send from that row is pending,
  however the events of thread 0 and of the other threads interleave: the row a send puts
  into the outbox at the call of \<^verbatim>\<open>MPI_Isend\<close> is the row in the buffer until the wait.
\<close>

theorem halo_exchange:
  assumes "2 \<le> ROWS cfg" and "PRINT_FREQUENCY cfg \<noteq> 0"
  shows "\<exists>d0 rs0 d rs d' rs'.
           after_iterations cfg dt_global_init (initial_ranks n init) k = Inr (d0, rs0) \<and>
           after_iterations cfg dt_global_init (initial_ranks n init) (Suc k) = Inr (d, rs) \<and>
           after_iterations cfg dt_global_init (initial_ranks n init) (Suc (Suc k)) = Inr (d', rs') \<and>
           length rs0 = n \<and> length rs = n \<and> length rs' = n \<and>
           (\<forall>r. r + 1 < n \<longrightarrow>
              matching_sends (rs ! r) (int r + 1) 0 =
                [((int r + 1, 0), load_row cfg (temperature (rs ! r)) (ROWS cfg))] \<and>
              matching_receives (rs ! (r + 1)) (int r) 0 = [Top_Recv] \<and>
              requests (rs ! (r + 1)) Top_Recv = Recv_Request 0 (int r) 0 \<and>
              matching_sends (rs ! (r + 1)) (int r) 1 =
                [((int r, 1), load_row cfg (temperature (rs ! (r + 1))) 1)] \<and>
              matching_receives (rs ! r) (int r + 1) 1 = [Bottom_Recv] \<and>
              requests (rs ! r) Bottom_Recv = Recv_Request (ROWS cfg + 1) (int r + 1) 1 \<and>
              matching_sends (rs ! r) (int r + 1) 1 = [] \<and>
              matching_sends (rs ! (r + 1)) (int r) 0 = [] \<and>
              (\<forall>j. 1 \<le> j \<and> j \<le> COLUMNS cfg \<longrightarrow>
                 temperature_last (rs' ! (r + 1)) 0 j = temperature (rs ! r) (ROWS cfg) j \<and>
                 temperature_last (rs' ! r) (ROWS cfg + 1) j = temperature (rs ! (r + 1)) 1 j)) \<and>
           (\<forall>r m. r < n \<and> m \<in> set (outbox (rs ! r)) \<longrightarrow>
              fst m = (int r + 1, 0) \<and> r + 1 < n \<or> fst m = (int r - 1, 1) \<and> 0 < r) \<and>
           (\<forall>r < n. \<exists>new0 new1 next0 next1.
              events (rs ! r) = events (rs0 ! r) @ new0 \<and>
              interior_events (rs ! r) = interior_events (rs0 ! r) @ new1 \<and>
              events (rs' ! r) = events (rs ! r) @ next0 \<and>
              interior_events (rs' ! r) = interior_events (rs ! r) @ next1 \<and>
              (\<forall>zs \<in> shuffles new0 new1. send_buffers_safe (requests (rs0 ! r)) zs) \<and>
              (\<forall>zs \<in> shuffles next0 next1. send_buffers_safe (requests (rs ! r)) zs))"
proof -
  let ?start = "initial_ranks n init"
  have rows: "ROWS cfg \<noteq> 0" using assms(1) by simp
  from after_iterations_returns [OF rows assms(2) quiet_initial_ranks, of dt_global_init n init k]
  obtain d0 rs0 where k0: "after_iterations cfg dt_global_init ?start k = Inr (d0, rs0)"
    "length rs0 = n"
    by (auto simp add: length_initial_ranks)
  note step0 = after_iterations_Suc [OF rows assms(2) quiet_initial_ranks k0(1)]
  let ?rs = "lockstep_result cfg (int k + 1) rs0"
  let ?d = "allreduce_max (map dt ?rs)"
  have len: "length ?rs = n" using k0(2) by (simp add: lockstep_result_def)
  have p: "exchange_pending cfg ?rs"
    by (rule exchange_pending_lockstep_result [OF step0(3)])
  note step = after_iterations_Suc [OF rows assms(2) quiet_initial_ranks step0(1)]
  let ?rs' = "lockstep_result cfg (int (Suc k) + 1) ?rs"
  let ?d' = "allreduce_max (map dt ?rs')"
  have len': "length ?rs' = n" using len by (simp add: lockstep_result_def)
  have link: "\<forall>r. r + 1 < n \<longrightarrow>
              matching_sends (?rs ! r) (int r + 1) 0 =
                [((int r + 1, 0), load_row cfg (temperature (?rs ! r)) (ROWS cfg))] \<and>
              matching_receives (?rs ! (r + 1)) (int r) 0 = [Top_Recv] \<and>
              requests (?rs ! (r + 1)) Top_Recv = Recv_Request 0 (int r) 0 \<and>
              matching_sends (?rs ! (r + 1)) (int r) 1 =
                [((int r, 1), load_row cfg (temperature (?rs ! (r + 1))) 1)] \<and>
              matching_receives (?rs ! r) (int r + 1) 1 = [Bottom_Recv] \<and>
              requests (?rs ! r) Bottom_Recv = Recv_Request (ROWS cfg + 1) (int r + 1) 1 \<and>
              matching_sends (?rs ! r) (int r + 1) 1 = [] \<and>
              matching_sends (?rs ! (r + 1)) (int r) 0 = [] \<and>
              (\<forall>j. 1 \<le> j \<and> j \<le> COLUMNS cfg \<longrightarrow>
                 temperature_last (?rs' ! (r + 1)) 0 j = temperature (?rs ! r) (ROWS cfg) j \<and>
                 temperature_last (?rs' ! r) (ROWS cfg + 1) j = temperature (?rs ! (r + 1)) 1 j)"
  proof (intro allI impI)
    fix r assume "r + 1 < n"
    then have r: "r + 1 < length ?rs" "r < length ?rs" using len by simp_all
    have ne: "int r \<noteq> int (length ?rs) - 1" using r by simp
    have "requests (?rs ! (r + 1)) Top_Recv = Recv_Request 0 (int r) 0"
      using p r by (simp add: exchange_pending_def launched_requests_def)
    moreover have "requests (?rs ! r) Bottom_Recv = Recv_Request (ROWS cfg + 1) (int r + 1) 1"
      using p r ne by (simp add: exchange_pending_def launched_requests_def)
    moreover have "temperature_last (?rs' ! (r + 1)) 0 j = temperature (?rs ! r) (ROWS cfg) j \<and>
          temperature_last (?rs' ! r) (ROWS cfg + 1) j = temperature (?rs ! (r + 1)) 1 j"
      if "1 \<le> j \<and> j \<le> COLUMNS cfg" for j
      using halo_rows_after(1) [OF p r(1), of j] halo_rows_after(2) [OF p r(2), of j] that r
      by simp
    ultimately show "matching_sends (?rs ! r) (int r + 1) 0 =
                [((int r + 1, 0), load_row cfg (temperature (?rs ! r)) (ROWS cfg))] \<and>
              matching_receives (?rs ! (r + 1)) (int r) 0 = [Top_Recv] \<and>
              requests (?rs ! (r + 1)) Top_Recv = Recv_Request 0 (int r) 0 \<and>
              matching_sends (?rs ! (r + 1)) (int r) 1 =
                [((int r, 1), load_row cfg (temperature (?rs ! (r + 1))) 1)] \<and>
              matching_receives (?rs ! r) (int r + 1) 1 = [Bottom_Recv] \<and>
              requests (?rs ! r) Bottom_Recv = Recv_Request (ROWS cfg + 1) (int r + 1) 1 \<and>
              matching_sends (?rs ! r) (int r + 1) 1 = [] \<and>
              matching_sends (?rs ! (r + 1)) (int r) 0 = [] \<and>
              (\<forall>j. 1 \<le> j \<and> j \<le> COLUMNS cfg \<longrightarrow>
                 temperature_last (?rs' ! (r + 1)) 0 j = temperature (?rs ! r) (ROWS cfg) j \<and>
                 temperature_last (?rs' ! r) (ROWS cfg + 1) j = temperature (?rs ! (r + 1)) 1 j)"
      using pending_link [OF p r(1)] by simp
  qed
  have dest: "\<forall>r m. r < n \<and> m \<in> set (outbox (?rs ! r)) \<longrightarrow>
              fst m = (int r + 1, 0) \<and> r + 1 < n \<or> fst m = (int r - 1, 1) \<and> 0 < r"
    using pending_destinations [OF p] len by simp
  have safe: "\<forall>r < n. \<exists>new0 new1 next0 next1.
              events (?rs ! r) = events (rs0 ! r) @ new0 \<and>
              interior_events (?rs ! r) = interior_events (rs0 ! r) @ new1 \<and>
              events (?rs' ! r) = events (?rs ! r) @ next0 \<and>
              interior_events (?rs' ! r) = interior_events (?rs ! r) @ next1 \<and>
              (\<forall>zs \<in> shuffles new0 new1. send_buffers_safe (requests (rs0 ! r)) zs) \<and>
              (\<forall>zs \<in> shuffles next0 next1. send_buffers_safe (requests (?rs ! r)) zs)"
  proof (intro allI impI)
    fix r assume "r < n"
    then have r0: "r < length rs0" and r: "r < length ?rs" using k0(2) len by simp_all
    from execution_send_buffers_safe [OF assms(1) step0(3) r0, of "int k + 1"]
    obtain new0 new1 where first:
      "events (?rs ! r) = events (rs0 ! r) @ new0"
      "interior_events (?rs ! r) = interior_events (rs0 ! r) @ new1"
      "\<forall>zs \<in> shuffles new0 new1. send_buffers_safe (requests (rs0 ! r)) zs"
      by (elim exE conjE)
    from execution_send_buffers_safe [OF assms(1) disjI2 [OF p] r, of "int (Suc k) + 1"]
    obtain next0 next1 where second:
      "events (?rs' ! r) = events (?rs ! r) @ next0"
      "interior_events (?rs' ! r) = interior_events (?rs ! r) @ next1"
      "\<forall>zs \<in> shuffles next0 next1. send_buffers_safe (requests (?rs ! r)) zs"
      by (elim exE conjE)
    from first second show "\<exists>new0 new1 next0 next1.
              events (?rs ! r) = events (rs0 ! r) @ new0 \<and>
              interior_events (?rs ! r) = interior_events (rs0 ! r) @ new1 \<and>
              events (?rs' ! r) = events (?rs ! r) @ next0 \<and>
              interior_events (?rs' ! r) = interior_events (?rs ! r) @ next1 \<and>
              (\<forall>zs \<in> shuffles new0 new1. send_buffers_safe (requests (rs0 ! r)) zs) \<and>
              (\<forall>zs \<in> shuffles next0 next1. send_buffers_safe (requests (?rs ! r)) zs)"
      by blast
  qed
  show ?thesis
    apply (rule exI [of _ d0], rule exI [of _ rs0], rule exI [of _ ?d], rule exI [of _ ?rs],
        rule exI [of _ ?d'], rule exI [of _ ?rs'])
    apply (intro conjI)
            apply (fact k0(1))
           apply (fact step0(1))
          apply (fact step(1))
         apply (fact k0(2))
        apply (fact len)
       apply (fact len')
      apply (fact link)
     apply (fact dest)
    apply (fact safe)
    done
qed

theorem halo_exchange_witness:
  "\<exists>d0 rs0 d rs d' rs'.
           after_iterations example_config dt_global_init (initial_ranks (2::nat) example_init) 0 = Inr (d0, rs0) \<and>
           after_iterations example_config dt_global_init (initial_ranks (2::nat) example_init) (Suc 0) = Inr (d, rs) \<and>
           after_iterations example_config dt_global_init (initial_ranks (2::nat) example_init) (Suc (Suc 0)) = Inr (d', rs') \<and>
           length rs0 = (2::nat) \<and> length rs = (2::nat) \<and> length rs' = (2::nat) \<and>
           (\<forall>r. r + 1 < (2::nat) \<longrightarrow>
              matching_sends (rs ! r) (int r + 1) 0 =
                [((int r + 1, 0), load_row example_config (temperature (rs ! r)) (ROWS example_config))] \<and>
              matching_receives (rs ! (r + 1)) (int r) 0 = [Top_Recv] \<and>
              requests (rs ! (r + 1)) Top_Recv = Recv_Request 0 (int r) 0 \<and>
              matching_sends (rs ! (r + 1)) (int r) 1 =
                [((int r, 1), load_row example_config (temperature (rs ! (r + 1))) 1)] \<and>
              matching_receives (rs ! r) (int r + 1) 1 = [Bottom_Recv] \<and>
              requests (rs ! r) Bottom_Recv = Recv_Request (ROWS example_config + 1) (int r + 1) 1 \<and>
              matching_sends (rs ! r) (int r + 1) 1 = [] \<and>
              matching_sends (rs ! (r + 1)) (int r) 0 = [] \<and>
              (\<forall>j. 1 \<le> j \<and> j \<le> COLUMNS example_config \<longrightarrow>
                 temperature_last (rs' ! (r + 1)) 0 j = temperature (rs ! r) (ROWS example_config) j \<and>
                 temperature_last (rs' ! r) (ROWS example_config + 1) j = temperature (rs ! (r + 1)) 1 j)) \<and>
           (\<forall>r m. r < (2::nat) \<and> m \<in> set (outbox (rs ! r)) \<longrightarrow>
              fst m = (int r + 1, 0) \<and> r + 1 < (2::nat) \<or> fst m = (int r - 1, 1) \<and> 0 < r) \<and>
           (\<forall>r < (2::nat). \<exists>new0 new1 next0 next1.
              events (rs ! r) = events (rs0 ! r) @ new0 \<and>
              interior_events (rs ! r) = interior_events (rs0 ! r) @ new1 \<and>
              events (rs' ! r) = events (rs ! r) @ next0 \<and>
              interior_events (rs' ! r) = interior_events (rs ! r) @ next1 \<and>
              (\<forall>zs \<in> shuffles new0 new1. send_buffers_safe (requests (rs0 ! r)) zs) \<and>
              (\<forall>zs \<in> shuffles next0 next1. send_buffers_safe (requests (rs ! r)) zs))"
  by (rule halo_exchange [OF example_config_wf(5,2)])

subsection \<open>Order of the threads and of the cells\<close>

text \<open>
  The order of the two threads in the model does not matter: from a state at the head of
  the loop, running the other threads first and thread 0 after them gives the same state.
\<close>

lemma boundary_result_interior_task_temperature:
  assumes "quiet rs \<or> exchange_pending cfg rs" and "r < length rs"
  shows "temperature (boundary_result cfg n r' (inbox_of rs (int r)) (interior_task cfg (rs ! r))) i j =
         temperature (interior_task cfg (boundary_result cfg n r' (inbox_of rs (int r)) (rs ! r))) i j"
proof (cases "2 \<le> i \<and> i < ROWS cfg \<and> 1 \<le> j \<and> j \<le> COLUMNS cfg")
  case True
  have kept: "temperature_last (boundary_result cfg n r' (inbox_of rs (int r)) (rs ! r)) a b =
              temperature_last (rs ! r) a b" if "1 \<le> a" "a \<le> ROWS cfg" for a b
    using previous_rows_kept [OF assms, where i = a and j = b] that by simp
  have "1 \<le> i - 1" "i - 1 \<le> ROWS cfg" "1 \<le> i + 1" "i + 1 \<le> ROWS cfg" "1 \<le> i" "i \<le> ROWS cfg"
    using True by auto
  then have "stencil (temperature_last (rs ! r)) i j =
        stencil (temperature_last (boundary_result cfg n r' (inbox_of rs (int r)) (rs ! r))) i j"
    by (intro stencil_cong) (simp_all only: kept)
  with True show ?thesis
    by (simp add: interior_task_temperature boundary_result_temperature)
next
  case False
  then show ?thesis
    by (auto simp add: interior_task_temperature boundary_result_temperature
          boundary_result_temperature_last)
qed

lemma compute_phase_order:
  assumes "quiet rs \<or> exchange_pending cfg rs" and "r < length rs"
  shows "boundary_result cfg n r' (inbox_of rs (int r)) (interior_task cfg (rs ! r)) =
         interior_task cfg (boundary_result cfg n r' (inbox_of rs (int r)) (rs ! r))"
proof (rule rank_state.equality)
  let ?lhs = "boundary_result cfg n r' (inbox_of rs (int r)) (interior_task cfg (rs ! r))"
  let ?rhs = "interior_task cfg (boundary_result cfg n r' (inbox_of rs (int r)) (rs ! r))"
  show t: "temperature ?lhs = temperature ?rhs"
    by (intro ext) (rule boundary_result_interior_task_temperature [OF assms])
  show "temperature_last ?lhs = temperature_last ?rhs"
    by (simp add: boundary_result_temperature_last)
  show "dt ?lhs = dt ?rhs" by simp
  show "requests ?lhs = requests ?rhs" by simp
  show "outbox ?lhs = outbox ?rhs"
    by (simp add: boundary_result_outbox t launched_messages_interior_task)
  show "events ?lhs = events ?rhs"
    by (simp add: boundary_result_events del: upt_Suc)
  show "interior_events ?lhs = interior_events ?rhs" by simp
  show "rank_state.more ?lhs = rank_state.more ?rhs" by simp
qed

text \<open>
  The order of the cells in the delta pass does not matter either: any list of the same
  cells without repetition gives the same maximum and the same copy.
\<close>

lemma delta_cells_order:
  assumes "distinct cs" and "distinct cs'" and "set cs = set cs'"
  shows "dt (fold (\<lambda>(i, j). delta_cell i j) cs s) = dt (fold (\<lambda>(i, j). delta_cell i j) cs' s)"
    and "temperature_last (fold (\<lambda>(i, j). delta_cell i j) cs s) =
         temperature_last (fold (\<lambda>(i, j). delta_cell i j) cs' s)"
  using assms by (simp_all add: fold_delta_cell_dt fold_delta_cell_temperature_last fun_eq_iff)

subsection \<open>The first test of the loop\<close>

text \<open>
  Claim C9. \<^verbatim>\<open>dt_global\<close> starts at 100, above the threshold 0.01 of the documentation. With
  this threshold and the cap 1500 of the documentation, whatever the rest of the
  configuration, the first test of the loop succeeds and the body is executed; when the
  loop returns, it has executed the body at least once. The same holds for every threshold
  below 100 and every cap of at least 0.
\<close>

theorem seed_above_threshold:
  "dt_global_init = 100 \<and> spec_MAX_TEMP_ERROR < dt_global_init \<and>
   (MAX_TEMP_ERROR cfg = spec_MAX_TEMP_ERROR \<and>
    MAX_NUMBER_OF_ITERATIONS cfg = spec_MAX_NUMBER_OF_ITERATIONS \<longrightarrow>
      MAX_TEMP_ERROR cfg < dt_global_init \<and>
      relax_loop cfg 0 dt_global_init rs0 =
        bind_result (lockstep cfg 1 rs0) (\<lambda>(dt_global, rs). relax_loop cfg 1 dt_global rs) \<and>
      (1 \<le> ROWS cfg \<and> PRINT_FREQUENCY cfg \<noteq> 0 \<longrightarrow>
         (\<exists>n d rs. relax_loop cfg 0 dt_global_init (initial_ranks comm_size init) = Inr (int n, d, rs) \<and>
            1 \<le> n))) \<and>
   (MAX_TEMP_ERROR cfg < dt_global_init \<and> 0 \<le> MAX_NUMBER_OF_ITERATIONS cfg \<longrightarrow>
      relax_loop cfg 0 dt_global_init rs0 =
        bind_result (lockstep cfg 1 rs0) (\<lambda>(dt_global, rs). relax_loop cfg 1 dt_global rs)) \<and>
   (MAX_TEMP_ERROR cfg < dt_global_init \<and> 0 \<le> MAX_NUMBER_OF_ITERATIONS cfg \<and>
    MAX_NUMBER_OF_ITERATIONS cfg < INT_MAX \<and> 1 \<le> ROWS cfg \<and> PRINT_FREQUENCY cfg \<noteq> 0 \<longrightarrow>
      (\<exists>n d rs. relax_loop cfg 0 dt_global_init (initial_ranks comm_size init) = Inr (int n, d, rs) \<and>
         1 \<le> n))"
proof -
  have enter: "relax_loop cfg 0 dt_global_init rs0 =
        bind_result (lockstep cfg 1 rs0) (\<lambda>(dt_global, rs). relax_loop cfg 1 dt_global rs)"
    if "MAX_TEMP_ERROR cfg < dt_global_init" "0 \<le> MAX_NUMBER_OF_ITERATIONS cfg"
    using that by (subst relax_loop.simps) (simp add: INT_MAX_def)
  have once: "\<exists>n d rs. relax_loop cfg 0 dt_global_init (initial_ranks comm_size init) = Inr (int n, d, rs) \<and>
          1 \<le> n"
    if a: "MAX_TEMP_ERROR cfg < dt_global_init" "0 \<le> MAX_NUMBER_OF_ITERATIONS cfg"
      "MAX_NUMBER_OF_ITERATIONS cfg < INT_MAX" "1 \<le> ROWS cfg" "PRINT_FREQUENCY cfg \<noteq> 0"
  proof -
    let ?rs0 = "initial_ranks comm_size init"
    have rows: "ROWS cfg \<noteq> 0" using a(4) by simp
    have "after_iterations cfg dt_global_init ?rs0 0 = Inr (dt_global_init, ?rs0)" by simp
    from relax_loop_runs [OF rows a(5) quiet_initial_ranks a(3) this]
    obtain n d rs where n:
      "relax_loop cfg 0 dt_global_init ?rs0 = Inr (int n, d, rs)"
      "after_iterations cfg dt_global_init ?rs0 n = Inr (d, rs)"
      "\<not> (d > MAX_TEMP_ERROR cfg \<and> int n \<le> MAX_NUMBER_OF_ITERATIONS cfg)"
      by auto
    have "n \<noteq> 0"
    proof
      assume "n = 0"
      with n(2,3) a(1,2) show False by simp
    qed
    with n(1) show ?thesis by (intro exI [of _ n] exI [of _ d] exI [of _ rs]) simp
  qed
  have spec: "MAX_TEMP_ERROR cfg < dt_global_init \<and> 0 \<le> MAX_NUMBER_OF_ITERATIONS cfg \<and>
              MAX_NUMBER_OF_ITERATIONS cfg < INT_MAX"
    if "MAX_TEMP_ERROR cfg = spec_MAX_TEMP_ERROR"
      "MAX_NUMBER_OF_ITERATIONS cfg = spec_MAX_NUMBER_OF_ITERATIONS"
    using that
    by (simp add: dt_global_init_def spec_MAX_TEMP_ERROR_def spec_MAX_NUMBER_OF_ITERATIONS_def
          INT_MAX_def)
  have "dt_global_init = 100 \<and> spec_MAX_TEMP_ERROR < dt_global_init"
    by (simp add: dt_global_init_def spec_MAX_TEMP_ERROR_def)
  with enter once spec show ?thesis by blast
qed

theorem seed_above_threshold_witness:
  "MAX_TEMP_ERROR example_config = spec_MAX_TEMP_ERROR \<and>
   MAX_NUMBER_OF_ITERATIONS example_config = spec_MAX_NUMBER_OF_ITERATIONS \<and>
   MAX_TEMP_ERROR example_config < dt_global_init \<and>
   relax_loop example_config 0 dt_global_init (initial_ranks 2 example_init) =
     bind_result (lockstep example_config 1 (initial_ranks 2 example_init))
       (\<lambda>(dt_global, rs). relax_loop example_config 1 dt_global rs) \<and>
   (\<exists>n d rs. relax_loop example_config 0 dt_global_init (initial_ranks 2 example_init) =
       Inr (int n, d, rs) \<and> 1 \<le> n)"
proof -
  have a: "MAX_TEMP_ERROR example_config = spec_MAX_TEMP_ERROR \<and>
           MAX_NUMBER_OF_ITERATIONS example_config = spec_MAX_NUMBER_OF_ITERATIONS"
    by (simp add: example_config_def spec_MAX_TEMP_ERROR_def spec_MAX_NUMBER_OF_ITERATIONS_def)
  have b: "1 \<le> ROWS example_config \<and> PRINT_FREQUENCY example_config \<noteq> 0"
    by (simp add: example_config_def)
  from seed_above_threshold [of example_config "initial_ranks 2 example_init" 2 example_init] a b
  show ?thesis by blast
qed

subsection \<open>A run that converges at once\<close>

lemma example_zero_dt:
  assumes "r < 2"
  shows "dt (lockstep_result example_config 1 (initial_ranks 2 (\<lambda>r. (\<lambda>i j. 0, \<lambda>i j. 0))) ! r) = 0"
proof -
  let ?rs0 = "initial_ranks 2 (\<lambda>r. (\<lambda>i j. 0 :: real, \<lambda>i j. 0 :: real))"
  let ?s0 = "initial_state (\<lambda>i j. 0) (\<lambda>i j. 0)"
  let ?b = "boundary_result example_config 2 (int r) (inbox_of ?rs0 (int r)) ?s0"
  have r: "r < length ?rs0" using assms by simp
  have nth: "?rs0 ! r = ?s0" using assms by (simp add: nth_initial_ranks)
  have last: "temperature_last ?b = (\<lambda>i j. 0)"
    using halos_quiet [OF quiet_initial_ranks r, of example_config 2 "int r" "inbox_of ?rs0 (int r)"]
    by (simp add: nth)
  have "temperature (interior_task example_config ?b) i j = 0" for i j
    by (simp add: interior_task_temperature boundary_result_temperature last stencil_def)
  then show ?thesis
    using r by (simp add: nth_lockstep_result delta_pass_dt last nth image_constant_conv)
qed

theorem relax_loop_terminates_witness:
  "\<exists>rs. relax_loop example_config 0 dt_global_init (initial_ranks 2 (\<lambda>r. (\<lambda>i j. 0, \<lambda>i j. 0))) =
          Inr (1, 0, rs)"
proof -
  let ?rs0 = "initial_ranks 2 (\<lambda>r. (\<lambda>i j. 0 :: real, \<lambda>i j. 0 :: real))"
  let ?rs1 = "lockstep_result example_config 1 ?rs0"
  from relax_loop_terminates [OF example_config_wf(1,2,3,4), of 2 "\<lambda>r. (\<lambda>i j. 0, \<lambda>i j. 0)"]
  obtain n d rs where n:
    "relax_loop example_config 0 dt_global_init ?rs0 = Inr (int n, d, rs)"
    "after_iterations example_config dt_global_init ?rs0 n = Inr (d, rs)"
    "d \<le> MAX_TEMP_ERROR example_config \<or> MAX_NUMBER_OF_ITERATIONS example_config < int n"
    "\<forall>m < n. \<exists>dm rsm.
        after_iterations example_config dt_global_init ?rs0 m = Inr (dm, rsm) \<and>
        MAX_TEMP_ERROR example_config < dm \<and> int m \<le> MAX_NUMBER_OF_ITERATIONS example_config"
    by (elim exE conjE)
  have "map dt ?rs1 = [0, 0]"
  proof (rule nth_equalityI)
    show "length (map dt ?rs1) = length [0, 0 :: real]" by simp
    fix i assume "i < length (map dt ?rs1)"
    then have i: "i < 2" by simp
    then have "map dt ?rs1 ! i = 0" using example_zero_dt [OF i] by simp
    moreover have "[0, 0 :: real] ! i = 0" using i by (cases i) auto
    ultimately show "map dt ?rs1 ! i = [0, 0] ! i" by simp
  qed
  then have d1: "allreduce_max (map dt ?rs1) = 0" by simp
  have zero: "after_iterations example_config dt_global_init ?rs0 0 = Inr (dt_global_init, ?rs0)"
    by simp
  have rows: "ROWS example_config \<noteq> 0" using example_config_wf(1) by simp
  from after_iterations_Suc(1) [OF rows example_config_wf(2) quiet_initial_ranks zero]
  have one: "after_iterations example_config dt_global_init ?rs0 1 = Inr (0, ?rs1)"
    by (simp add: d1)
  have "n \<noteq> 0"
  proof
    assume "n = 0"
    with n(2,3) show False by (simp add: dt_global_init_def example_config_def)
  qed
  moreover have "\<not> 1 < n"
  proof
    assume "1 < n"
    with n(4) [rule_format, of 1] one show False by (simp add: example_config_def)
  qed
  ultimately have "n = 1" by simp
  with n(1,2) one show ?thesis by simp
qed

end
